theory Spec2Isabelle
  imports Main "HOL-Library.AList"
begin

section \<open>Values and exceptions of the Python program\<close>

text \<open>
  The program (\<^verbatim>\<open>aider/mcp_server.py\<close>) handles JSON values decoded by
  \<^verbatim>\<open>json.loads\<close>. A JSON object is a Python dict, which keeps insertion order:
  it is an association list, read with \<open>map_of\<close>, written with \<open>AList.update\<close>
  (replace in place, or append) and \<open>AList.delete\<close>. Non-integer JSON numbers are
  not represented.
\<close>

datatype json =
    JNull
  | JBool bool
  | JInt int
  | JStr string
  | JList "json list"
  | JObj "(string \<times> json) list"

datatype exn =
    TimeoutError string
  | Exception string
  | McpError json
  | AttributeError
  | TypeError
  | KeyError
  | ValueError
  | BrokenPipeError
  | TimeoutExpired
  | OSError

text \<open>Python truthiness, as used by \<^verbatim>\<open>if params:\<close>, \<^verbatim>\<open>if future["error"]:\<close>,
  \<^verbatim>\<open>if not command:\<close>.\<close>

fun truthy :: "json \<Rightarrow> bool" where
  "truthy JNull = False"
| "truthy (JBool b) = b"
| "truthy (JInt i) = (i \<noteq> 0)"
| "truthy (JStr s) = (s \<noteq> [])"
| "truthy (JList xs) = (xs \<noteq> [])"
| "truthy (JObj kvs) = (kvs \<noteq> [])"

definition is_substring :: "string \<Rightarrow> string \<Rightarrow> bool" where
  "is_substring xs ys =
     list_ex (\<lambda>i. take (length xs) (drop i ys) = xs) [0 ..< Suc (length ys)]"

text \<open>\<^verbatim>\<open>key in x\<close> for a string key: key test on a dict, element test on a list,
  substring test on a string, TypeError on anything else.\<close>

fun py_contains :: "string \<Rightarrow> json \<Rightarrow> exn + bool" where
  "py_contains k (JObj kvs) = Inr (k \<in> fst ` set kvs)"
| "py_contains k (JList xs) = Inr (JStr k \<in> set xs)"
| "py_contains k (JStr s) = Inr (is_substring k s)"
| "py_contains k JNull = Inl TypeError"
| "py_contains k (JBool b) = Inl TypeError"
| "py_contains k (JInt i) = Inl TypeError"

text \<open>\<^verbatim>\<open>x[key]\<close> for a string key: KeyError on a dict without the key, TypeError on
  every value that is not a dict.\<close>

fun py_getitem :: "json \<Rightarrow> string \<Rightarrow> exn + json" where
  "py_getitem (JObj kvs) k = (case map_of kvs k of None \<Rightarrow> Inl KeyError | Some v \<Rightarrow> Inr v)"
| "py_getitem JNull k = Inl TypeError"
| "py_getitem (JBool b) k = Inl TypeError"
| "py_getitem (JInt i) k = Inl TypeError"
| "py_getitem (JStr s) k = Inl TypeError"
| "py_getitem (JList xs) k = Inl TypeError"

text \<open>\<^verbatim>\<open>x.get(key, default)\<close>: only a dict has the method.\<close>

fun py_get :: "json \<Rightarrow> string \<Rightarrow> json \<Rightarrow> exn + json" where
  "py_get (JObj kvs) k d = (case map_of kvs k of None \<Rightarrow> Inr d | Some v \<Rightarrow> Inr v)"
| "py_get JNull k d = Inl AttributeError"
| "py_get (JBool b) k d = Inl AttributeError"
| "py_get (JInt i) k d = Inl AttributeError"
| "py_get (JStr s) k d = Inl AttributeError"
| "py_get (JList xs) k d = Inl AttributeError"

text \<open>A decoded value used as a key of the table of pending requests, whose keys are
  the integers of the counter: a list or a dict is unhashable (TypeError), \<^verbatim>\<open>True\<close> and
  \<^verbatim>\<open>False\<close> are the keys 1 and 0, a string or \<^verbatim>\<open>None\<close> equals no integer key.\<close>

fun py_int_key :: "json \<Rightarrow> exn + int option" where
  "py_int_key (JInt i) = Inr (Some i)"
| "py_int_key (JBool b) = Inr (Some (if b then 1 else 0))"
| "py_int_key (JStr s) = Inr None"
| "py_int_key JNull = Inr None"
| "py_int_key (JList xs) = Inl TypeError"
| "py_int_key (JObj kvs) = Inl TypeError"

section \<open>The server process\<close>

text \<open>
  A \<^verbatim>\<open>subprocess.Popen\<close> object, with the behaviour of the child scripted in the
  record: how many more lines its input pipe accepts before it breaks, whether it exits
  when its input is closed, whether it exits on SIGTERM. \<^verbatim>\<open>poll\<close>,
  \<^verbatim>\<open>terminate\<close> and \<^verbatim>\<open>kill\<close> do not raise (\<^verbatim>\<open>Popen.send_signal\<close>
  does nothing on a child that has exited); \<^verbatim>\<open>wait(timeout=5)\<close> raises TimeoutExpired
  on a child that is still running; a write raises on a closed file or a broken pipe.
  A line written to the child is represented by the JSON value it encodes.
\<close>

record process =
  returncode :: "int option"
  stdin_closed :: bool
  stdin_lines :: "json list"
  accepts :: nat
  exits_on_eof :: bool
  exits_on_sigterm :: bool
  sigterm_sent :: bool
  sigkill_sent :: bool

definition poll :: "process \<Rightarrow> int option" where
  "poll p = returncode p"

definition stdin_write :: "process \<Rightarrow> json \<Rightarrow> exn + process" where
  "stdin_write p v =
     (if stdin_closed p then Inl ValueError
      else if accepts p = 0 then Inl BrokenPipeError
      else Inr (p\<lparr>stdin_lines := stdin_lines p @ [v], accepts := accepts p - 1\<rparr>))"

definition stdin_close :: "process \<Rightarrow> process" where
  "stdin_close p =
     p\<lparr>stdin_closed := True,
       returncode := (if returncode p = None \<and> exits_on_eof p then Some 0 else returncode p)\<rparr>"

definition wait_timeout :: "process \<Rightarrow> exn + int" where
  "wait_timeout p = (case returncode p of None \<Rightarrow> Inl TimeoutExpired | Some rc \<Rightarrow> Inr rc)"

definition terminate :: "process \<Rightarrow> process" where
  "terminate p =
     (if returncode p \<noteq> None then p
      else p\<lparr>sigterm_sent := True,
             returncode := (if exits_on_sigterm p then Some (- 15) else None)\<rparr>)"

definition kill :: "process \<Rightarrow> process" where
  "kill p =
     (if returncode p \<noteq> None then p
      else p\<lparr>sigkill_sent := True, returncode := Some (- 9)\<rparr>)"

text \<open>The child as \<^verbatim>\<open>Popen\<close> returns it: running, nothing written, no signal
  sent; the parameters are its scripted behaviour.\<close>

definition spawned :: "nat \<Rightarrow> bool \<Rightarrow> bool \<Rightarrow> process" where
  "spawned n on_eof on_sigterm =
     \<lparr>returncode = None, stdin_closed = False, stdin_lines = [], accepts = n,
      exits_on_eof = on_eof, exits_on_sigterm = on_sigterm,
      sigterm_sent = False, sigkill_sent = False\<rparr>"

section \<open>McpClient\<close>

text \<open>
  A future is the dict \<^verbatim>\<open>{"done", "result", "error"}\<close>. The table of pending
  requests and the waiting caller both hold a reference to it; the handler pops it from
  the table before completing it, so the model hands the completed future over to the
  waiter: \<open>handle_message\<close> returns it with the key it was popped from.

  \<open>events\<close> is a history kept by the model only: it records, in order, each insertion
  of a slot and each request line written, so that their order can be stated.

  The threads are sequentialised: one caller at a time runs a method of the client, and
  the reader thread handles lines while that caller waits for its response (the list of
  lines given to the method) or between two calls (\<open>read_responses\<close>). The lock
  protects exactly the steps that the model takes as atomic: taking an id, storing a slot,
  popping a slot. Time is not modelled: a wait times out when the lines handled before
  the deadline (the whole list) did not complete the caller's future.
\<close>

record future =
  fdone :: bool
  fresult :: json
  ferror :: json

datatype event = SlotInserted int | RequestWritten int

record client =
  process :: nat
  io :: bool
  request_id :: int
  pending_requests :: "(int \<times> future) list"
  capabilities :: json
  server_info :: json
  tools :: json
  initialized :: bool
  events :: "event list"

definition protocol_version :: string where
  "protocol_version = ''2025-03-26''"

definition new_client :: "nat \<Rightarrow> bool \<Rightarrow> client" where
  "new_client pid sink =
     \<lparr>process = pid, io = sink, request_id = 0, pending_requests = [],
      capabilities = JObj [], server_info = JObj [], tools = JList [],
      initialized = False, events = []\<rparr>"

text \<open>What the reader thread finds on the child's output: a line that does not decode
  (JSONDecodeError) or a decoded message.\<close>

datatype line = Garbage | Message json

type_synonym delivery = "(int \<times> future) option"
type_synonym handler = "client \<Rightarrow> process \<Rightarrow> json \<Rightarrow> exn + (client \<times> process \<times> delivery)"

text \<open>One turn of the loop of \<^verbatim>\<open>_read_responses\<close>: nothing is read once the child
  has exited; a line that does not decode and a handler that raises are reported and the
  loop goes on.\<close>

definition reader_step :: "handler \<Rightarrow> client \<Rightarrow> process \<Rightarrow> line \<Rightarrow> client \<times> process \<times> delivery" where
  "reader_step h c p l =
     (if poll p \<noteq> None then (c, p, None)
      else case l of
          Garbage \<Rightarrow> (c, p, None)
        | Message m \<Rightarrow> (case h c p m of Inl e \<Rightarrow> (c, p, None) | Inr r \<Rightarrow> r))"

text \<open>The wait of \<^verbatim>\<open>_send_request\<close>: the lines the reader thread handles until the
  caller's future is done or the timeout passes (the end of the list).\<close>

fun await :: "handler \<Rightarrow> int \<Rightarrow> future \<Rightarrow> client \<Rightarrow> process \<Rightarrow> line list \<Rightarrow> future \<times> client \<times> process" where
  "await h rid fut c p [] = (fut, c, p)"
| "await h rid fut c p (l # ls) =
     (if fdone fut then (fut, c, p)
      else case reader_step h c p l of
        (c', p', d) \<Rightarrow>
          await h rid (case d of None \<Rightarrow> fut | Some (k, f) \<Rightarrow> if k = rid then f else fut) c' p' ls)"

text \<open>\<^verbatim>\<open>_send_request\<close>, in the order of the source: the next id is taken from
  the counter and the new future is stored under it (\<open>register_request\<close>); the request
  is written to the child; the caller waits; the slot is popped on every exception
  (\<open>drop_slot\<close> is \<^verbatim>\<open>self.pending_requests.pop(request_id, None)\<close>).\<close>

definition new_future :: future where
  "new_future = \<lparr>fdone = False, fresult = JNull, ferror = JNull\<rparr>"

definition make_request :: "int \<Rightarrow> string \<Rightarrow> json \<Rightarrow> json" where
  "make_request rid method params =
     JObj ([(''jsonrpc'', JStr ''2.0''), (''id'', JInt rid), (''method'', JStr method)]
           @ (if truthy params then [(''params'', params)] else []))"

definition register_request :: "client \<Rightarrow> client" where
  "register_request c =
     c\<lparr>request_id := request_id c + 1,
       pending_requests := AList.update (request_id c + 1) new_future (pending_requests c),
       events := events c @ [SlotInserted (request_id c + 1)]\<rparr>"

definition note_written :: "int \<Rightarrow> client \<Rightarrow> client" where
  "note_written rid c = c\<lparr>events := events c @ [RequestWritten rid]\<rparr>"

definition drop_slot :: "int \<Rightarrow> client \<Rightarrow> client" where
  "drop_slot rid c = c\<lparr>pending_requests := AList.delete rid (pending_requests c)\<rparr>"

definition send_request_with :: "handler \<Rightarrow> client \<Rightarrow> process \<Rightarrow> string \<Rightarrow> json \<Rightarrow> line list \<Rightarrow> (exn + json) \<times> client \<times> process" where
  "send_request_with h c p method params incoming =
     (let c2 = register_request c;
          rid = request_id c2
      in case stdin_write p (make_request rid method params) of
           Inl e \<Rightarrow> (Inl e, drop_slot rid c2, p)
         | Inr p1 \<Rightarrow>
             (case await h rid new_future (note_written rid c2) p1 incoming of
                (fut', c3, p3) \<Rightarrow>
                  if \<not> fdone fut' then (Inl (TimeoutError method), drop_slot rid c3, p3)
                  else if truthy (ferror fut') then (Inl (McpError (ferror fut')), drop_slot rid c3, p3)
                  else (Inr (fresult fut'), c3, p3)))"

text \<open>\<^verbatim>\<open>_refresh_tools\<close>. Every exception is caught and reported. The report of the
  tool names after the assignment changes no state.\<close>

definition refresh_tools_with :: "handler \<Rightarrow> client \<Rightarrow> process \<Rightarrow> line list \<Rightarrow> client \<times> process" where
  "refresh_tools_with h c p incoming =
     (if \<not> initialized c then (c, p)
      else case py_contains ''tools'' (capabilities c) of
          Inl e \<Rightarrow> (c, p)
        | Inr False \<Rightarrow> (c, p)
        | Inr True \<Rightarrow>
            (case send_request_with h c p ''tools/list'' JNull incoming of
               (Inl e, c', p') \<Rightarrow> (c', p')
             | (Inr res, c', p') \<Rightarrow>
                 (case py_get res ''tools'' (JList []) of
                    Inl e \<Rightarrow> (c', p')
                  | Inr ts \<Rightarrow> (c'\<lparr>tools := ts\<rparr>, p'))))"

text \<open>The handler runs on the reader thread. A refresh it starts waits on that same
  thread, so no line is handled during that wait.\<close>

definition blocked :: handler where
  "blocked c p m = Inr (c, p, None)"

definition handle_message :: handler where
  "handle_message c p message =
     (case py_contains ''id'' message of
        Inl e \<Rightarrow> Inl e
      | Inr True \<Rightarrow>
          (case py_getitem message ''id'' of
             Inl e \<Rightarrow> Inl e
           | Inr req_id \<Rightarrow>
               (case py_int_key req_id of
                  Inl e \<Rightarrow> Inl e
                | Inr None \<Rightarrow> Inr (c, p, None)
                | Inr (Some k) \<Rightarrow>
                    (case map_of (pending_requests c) k of
                       None \<Rightarrow> Inr (c, p, None)
                     | Some fut \<Rightarrow>
                         (let c' = drop_slot k c
                          in case py_contains ''error'' message of
                               Inl e \<Rightarrow> Inl e
                             | Inr True \<Rightarrow>
                                 (case py_getitem message ''error'' of
                                    Inl e \<Rightarrow> Inl e
                                  | Inr err \<Rightarrow> Inr (c', p, Some (k, fut\<lparr>ferror := err, fdone := True\<rparr>)))
                             | Inr False \<Rightarrow>
                                 (case py_get message ''result'' JNull of
                                    Inl e \<Rightarrow> Inl e
                                  | Inr res \<Rightarrow> Inr (c', p, Some (k, fut\<lparr>fresult := res, fdone := True\<rparr>)))))))
      | Inr False \<Rightarrow>
          (case py_get message ''method'' (JStr []) of
             Inl e \<Rightarrow> Inl e
           | Inr method \<Rightarrow>
               if method = JStr ''notifications/tools/list_changed''
               then (case refresh_tools_with blocked c p [] of (c', p') \<Rightarrow> Inr (c', p', None))
               else Inr (c, p, None)))"

definition send_request :: "client \<Rightarrow> process \<Rightarrow> string \<Rightarrow> json \<Rightarrow> line list \<Rightarrow> (exn + json) \<times> client \<times> process" where
  "send_request = send_request_with handle_message"

definition refresh_tools :: "client \<Rightarrow> process \<Rightarrow> line list \<Rightarrow> client \<times> process" where
  "refresh_tools = refresh_tools_with handle_message"

definition send_notification :: "process \<Rightarrow> string \<Rightarrow> json \<Rightarrow> exn + process" where
  "send_notification p method params =
     stdin_write p (JObj ([(''jsonrpc'', JStr ''2.0''), (''method'', JStr method)]
                          @ (if truthy params then [(''params'', params)] else [])))"

definition init_params :: json where
  "init_params =
     JObj [(''protocolVersion'', JStr protocol_version),
           (''capabilities'', JObj [(''roots'', JObj [(''listChanged'', JBool True)]), (''sampling'', JObj [])]),
           (''clientInfo'', JObj [(''name'', JStr ''aider''), (''version'', JStr ''0.1.0'')])]"

text \<open>\<^verbatim>\<open>initialize\<close>: every exception of the body is caught and turns into the result
  False. The second list of lines is what the reader handles during the wait of the
  refresh, if the refresh sends a request. With a sink, the success report reads
  \<^verbatim>\<open>self.server_info.get('name', 'Unknown')\<close>, which raises when the server's
  \<^verbatim>\<open>serverInfo\<close> is not an object.\<close>

definition initialize :: "client \<Rightarrow> process \<Rightarrow> line list \<Rightarrow> line list \<Rightarrow> bool \<times> client \<times> process" where
  "initialize c p inc_init inc_tools =
     (case send_request c p ''initialize'' init_params inc_init of
        (Inl e, c1, p1) \<Rightarrow> (False, c1, p1)
      | (Inr res, c1, p1) \<Rightarrow>
          (case py_get res ''capabilities'' (JObj []) of
             Inl e \<Rightarrow> (False, c1, p1)
           | Inr caps \<Rightarrow>
               (case py_get res ''serverInfo'' (JObj []) of
                  Inl e \<Rightarrow> (False, c1\<lparr>capabilities := caps\<rparr>, p1)
                | Inr info \<Rightarrow>
                    (let c2 = c1\<lparr>capabilities := caps, server_info := info\<rparr>
                     in case send_notification p1 ''notifications/initialized'' JNull of
                          Inl e \<Rightarrow> (False, c2, p1)
                        | Inr p2 \<Rightarrow>
                            (case refresh_tools c2 p2 inc_tools of
                               (c3, p3) \<Rightarrow>
                                 (let c4 = c3\<lparr>initialized := True\<rparr>
                                  in if io c4
                                     then (case py_get (server_info c4) ''name'' (JStr ''Unknown'') of
                                             Inl e \<Rightarrow> (False, c4, p3)
                                           | Inr n \<Rightarrow> (True, c4, p3))
                                     else (True, c4, p3)))))))"

text \<open>\<^verbatim>\<open>get_tools\<close> is \<^verbatim>\<open>self.tools.copy()\<close>: a new list (or dict) holding the
  same elements; a value with no \<^verbatim>\<open>copy\<close> method raises.\<close>

fun get_tools :: "client \<Rightarrow> exn + json" where
  "get_tools c =
     (case tools c of
        JList xs \<Rightarrow> Inr (JList xs)
      | JObj kvs \<Rightarrow> Inr (JObj kvs)
      | _ \<Rightarrow> Inl AttributeError)"

definition call_tool :: "client \<Rightarrow> process \<Rightarrow> string \<Rightarrow> json \<Rightarrow> line list \<Rightarrow> (exn + json) \<times> client \<times> process" where
  "call_tool c p name arguments incoming =
     (if \<not> initialized c then (Inl (Exception ''MCP client not initialized''), c, p)
      else send_request c p ''tools/call''
             (JObj [(''name'', JStr name), (''arguments'', arguments)]) incoming)"

text \<open>\<^verbatim>\<open>close\<close>: close the child's input and wait; on TimeoutExpired terminate and
  wait; on TimeoutExpired again kill.\<close>

definition close :: "process \<Rightarrow> process" where
  "close p =
     (if poll p \<noteq> None then p
      else let p1 = stdin_close p
           in case wait_timeout p1 of
                Inr rc \<Rightarrow> p1
              | Inl e \<Rightarrow>
                  (let p2 = terminate p1
                   in case wait_timeout p2 of
                        Inr rc \<Rightarrow> p2
                      | Inl e' \<Rightarrow> kill p2))"

text \<open>The reader thread on its own, outside any wait.\<close>

fun read_responses :: "client \<Rightarrow> process \<Rightarrow> line list \<Rightarrow> client \<times> process" where
  "read_responses c p [] = (c, p)"
| "read_responses c p (l # ls) =
     (case reader_step handle_message c p l of (c', p', d) \<Rightarrow> read_responses c' p' ls)"

section \<open>McpServerManager\<close>

text \<open>
  A process object is shared: \<^verbatim>\<open>active_processes[name]\<close> and the client's
  \<^verbatim>\<open>process\<close> field are the same object. The process objects therefore live in a
  store, and both hold its address. \<open>m_io\<close> says whether the manager was given a sink
  (\<^verbatim>\<open>io\<close> defaults to \<^verbatim>\<open>None\<close>); the manager calls \<^verbatim>\<open>self.io.tool_output\<close>
  and \<^verbatim>\<open>self.io.tool_error\<close> without a test, which raises AttributeError without
  a sink. The text that a sink receives is not part of the state.
\<close>

record manager =
  m_io :: bool
  active_processes :: "(string \<times> nat) list"
  mcp_clients :: "(string \<times> client) list"

record world =
  ptable :: "nat \<Rightarrow> process"
  next_pid :: nat

definition new_manager :: "bool \<Rightarrow> manager" where
  "new_manager sink = \<lparr>m_io = sink, active_processes = [], mcp_clients = []\<rparr>"

definition tool_output :: "manager \<Rightarrow> exn + unit" where
  "tool_output m = (if m_io m then Inr () else Inl AttributeError)"

definition tool_error :: "manager \<Rightarrow> exn + unit" where
  "tool_error m = (if m_io m then Inr () else Inl AttributeError)"

text \<open>The argument of \<^verbatim>\<open>process_env.update(env_vars)\<close>: a dict, or an iterable of
  pairs with hashable keys.\<close>

fun py_pair :: "json \<Rightarrow> exn + (json \<times> json)" where
  "py_pair (JList [k, v]) =
     (case k of JList xs \<Rightarrow> Inl TypeError | JObj kvs \<Rightarrow> Inl TypeError | _ \<Rightarrow> Inr (k, v))"
| "py_pair (JList xs) = Inl ValueError"
| "py_pair (JStr [a, b]) = Inr (JStr [a], JStr [b])"
| "py_pair (JStr s) = Inl ValueError"
| "py_pair (JObj [(k1, v1), (k2, v2)]) = Inr (JStr k1, JStr k2)"
| "py_pair (JObj kvs) = Inl ValueError"
| "py_pair JNull = Inl TypeError"
| "py_pair (JBool b) = Inl TypeError"
| "py_pair (JInt i) = Inl TypeError"

fun py_pairs :: "json list \<Rightarrow> exn + (json \<times> json) list" where
  "py_pairs [] = Inr []"
| "py_pairs (x # xs) =
     (case py_pair x of
        Inl e \<Rightarrow> Inl e
      | Inr kv \<Rightarrow> (case py_pairs xs of Inl e \<Rightarrow> Inl e | Inr kvs \<Rightarrow> Inr (kv # kvs)))"

fun env_update :: "json \<Rightarrow> exn + (json \<times> json) list" where
  "env_update (JObj kvs) = Inr (map (\<lambda>(k, v). (JStr k, v)) kvs)"
| "env_update (JList xs) = py_pairs xs"
| "env_update (JStr s) = py_pairs (map (\<lambda>ch. JStr [ch]) s)"
| "env_update JNull = Inl TypeError"
| "env_update (JBool b) = Inl TypeError"
| "env_update (JInt i) = Inl TypeError"

fun is_str :: "json \<Rightarrow> bool" where
  "is_str (JStr s) = True"
| "is_str v = False"

text \<open>What \<^verbatim>\<open>process_env.update(env_vars)\<close> leaves of the pairs it was given: they
  are stored one after the other, so a key that comes again keeps its place and takes the
  later value.\<close>

definition updated_env :: "(json \<times> json) list \<Rightarrow> (json \<times> json) list" where
  "updated_env pairs = foldl (\<lambda>acc (k, v). AList.update k v acc) [] pairs"

text \<open>\<^verbatim>\<open>subprocess.Popen([command] + args, env=process_env, ...)\<close>. The concatenation
  needs a list; Popen needs strings in the argument vector and in the environment as the
  update left it; then the operating system decides, which is the parameter \<open>spawn\<close>:
  an exception, or the new child.\<close>

definition popen :: "json \<Rightarrow> json \<Rightarrow> (json \<times> json) list \<Rightarrow> exn + process \<Rightarrow> exn + process" where
  "popen command args env spawn =
     (case args of
        JList xs \<Rightarrow>
          if list_all is_str (command # xs)
             \<and> list_all (\<lambda>(k, v). is_str k \<and> is_str v) (updated_env env)
          then spawn else Inl TypeError
      | _ \<Rightarrow> Inl TypeError)"

definition set_process :: "world \<Rightarrow> nat \<Rightarrow> process \<Rightarrow> world" where
  "set_process w pid p = w\<lparr>ptable := (ptable w)(pid := p)\<rparr>"

text \<open>\<^verbatim>\<open>start_server\<close>. The handler of the \<^verbatim>\<open>try\<close> block calls
  \<^verbatim>\<open>self.io.tool_error\<close> itself, so without a sink an exception of the block
  leaves the function as an AttributeError.\<close>

definition start_server :: "manager \<Rightarrow> world \<Rightarrow> string \<Rightarrow> json \<Rightarrow> exn + process \<Rightarrow> line list \<Rightarrow> line list \<Rightarrow> (exn + bool) \<times> manager \<times> world" where
  "start_server m w server_name config spawn inc_init inc_tools =
     (if server_name \<in> fst ` set (active_processes m)
      then (case tool_output m of Inl e \<Rightarrow> (Inl e, m, w) | Inr u \<Rightarrow> (Inr True, m, w))
      else (case py_get config ''command'' JNull of
          Inl e \<Rightarrow> (Inl e, m, w)
        | Inr command \<Rightarrow>
         (case py_get config ''args'' (JList []) of
            Inl e \<Rightarrow> (Inl e, m, w)
          | Inr args \<Rightarrow>
           (case py_get config ''env'' (JObj []) of
              Inl e \<Rightarrow> (Inl e, m, w)
            | Inr env_vars \<Rightarrow>
               if \<not> truthy command
               then (case tool_error m of Inl e \<Rightarrow> (Inl e, m, w) | Inr u \<Rightarrow> (Inr False, m, w))
               else (case env_update env_vars of
                   Inl e \<Rightarrow> (Inl e, m, w)
                 | Inr env \<Rightarrow>
                    (case popen command args env spawn of
                       Inl e \<Rightarrow>
                         (case tool_error m of Inl e' \<Rightarrow> (Inl e', m, w) | Inr u \<Rightarrow> (Inr False, m, w))
                     | Inr p0 \<Rightarrow>
                         (let pid = next_pid w;
                              w1 = (set_process w pid p0)\<lparr>next_pid := Suc pid\<rparr>;
                              m1 = m\<lparr>active_processes := AList.update server_name pid (active_processes m)\<rparr>
                          in case initialize (new_client pid (m_io m)) p0 inc_init inc_tools of
                               (True, c, p1) \<Rightarrow>
                                 (let m2 = m1\<lparr>mcp_clients := AList.update server_name c (mcp_clients m1)\<rparr>;
                                      w2 = set_process w1 pid p1
                                  in case tool_output m2 of
                                       Inl e \<Rightarrow> (Inl e, m2, w2)
                                     | Inr u \<Rightarrow> (Inr True, m2, w2))
                             | (False, c, p1) \<Rightarrow>
                                 (Inr False,
                                  m1\<lparr>active_processes := AList.delete server_name (active_processes m1)\<rparr>,
                                  set_process w1 pid (terminate p1)))))))))"

text \<open>\<^verbatim>\<open>stop_server\<close>. \<^verbatim>\<open>close\<close> does not raise here, so the client's entry is
  always deleted; in the second \<^verbatim>\<open>try\<close> block only \<^verbatim>\<open>wait\<close> and the sink
  can raise, and the handler reports before it kills.\<close>

definition stop_server :: "manager \<Rightarrow> world \<Rightarrow> string \<Rightarrow> (exn + bool) \<times> manager \<times> world" where
  "stop_server m w server_name =
     (case map_of (active_processes m) server_name of
        None \<Rightarrow> (Inr False, m, w)
      | Some pid \<Rightarrow>
          (case (case map_of (mcp_clients m) server_name of
                   None \<Rightarrow> (m, w)
                 | Some c \<Rightarrow>
                     (m\<lparr>mcp_clients := AList.delete server_name (mcp_clients m)\<rparr>,
                      set_process w (process c) (close (ptable w (process c))))) of
             (m1, w1) \<Rightarrow>
               (let p1 = terminate (ptable w1 pid);
                    w2 = set_process w1 pid p1
                in case wait_timeout p1 of
                     Inr rc \<Rightarrow>
                       (let m2 = m1\<lparr>active_processes := AList.delete server_name (active_processes m1)\<rparr>
                        in case tool_output m2 of
                             Inr u \<Rightarrow> (Inr True, m2, w2)
                           | Inl e \<Rightarrow>
                               (case tool_error m2 of
                                  Inl e' \<Rightarrow> (Inl e', m2, w2)
                                | Inr u \<Rightarrow> (Inr False, m2, set_process w2 pid (kill p1))))
                   | Inl e \<Rightarrow>
                       (case tool_error m1 of
                          Inl e' \<Rightarrow> (Inl e', m1, w2)
                        | Inr u \<Rightarrow>
                            (Inr False,
                             m1\<lparr>active_processes := AList.delete server_name (active_processes m1)\<rparr>,
                             set_process w2 pid (kill p1))))))"

fun stop_each :: "manager \<Rightarrow> world \<Rightarrow> string list \<Rightarrow> (exn + unit) \<times> manager \<times> world" where
  "stop_each m w [] = (Inr (), m, w)"
| "stop_each m w (n # ns) =
     (case stop_server m w n of
        (Inl e, m', w') \<Rightarrow> (Inl e, m', w')
      | (Inr b, m', w') \<Rightarrow> stop_each m' w' ns)"

definition stop_all_servers :: "manager \<Rightarrow> world \<Rightarrow> (exn + unit) \<times> manager \<times> world" where
  "stop_all_servers m w = stop_each m w (map fst (active_processes m))"

text \<open>\<^verbatim>\<open>get_all_tools\<close>. The copy made by \<^verbatim>\<open>get_tools\<close> holds the very dicts of
  the client's cache, so \<^verbatim>\<open>tool["_mcp_server"] = server_name\<close> writes into the
  cache: the function returns the clients as it leaves them. The loop over the tools
  stops at the first element that takes no item assignment, after the elements before it
  were tagged; a dict in place of the list is iterated by its keys, which are strings.\<close>

fun tag_tools :: "string \<Rightarrow> json list \<Rightarrow> json list \<times> bool" where
  "tag_tools n [] = ([], True)"
| "tag_tools n (x # xs) =
     (case x of
        JObj kvs \<Rightarrow>
          (case tag_tools n xs of
             (ys, ok) \<Rightarrow> (JObj (AList.update ''_mcp_server'' (JStr n) kvs) # ys, ok))
      | _ \<Rightarrow> (x # xs, False))"

definition tag_client :: "string \<Rightarrow> client \<Rightarrow> (exn + json list) \<times> client" where
  "tag_client n c =
     (case get_tools c of
        Inl e \<Rightarrow> (Inl e, c)
      | Inr (JList xs) \<Rightarrow>
          (case tag_tools n xs of
             (ys, ok) \<Rightarrow> (if ok then Inr ys else Inl TypeError, c\<lparr>tools := JList ys\<rparr>))
      | Inr (JObj kvs) \<Rightarrow> (if kvs = [] then Inr [] else Inl TypeError, c)
      | Inr v \<Rightarrow> (Inl AttributeError, c))"

fun collect_tools :: "bool \<Rightarrow> (string \<times> client) list \<Rightarrow> (exn + json list) \<times> (string \<times> client) list" where
  "collect_tools sink [] = (Inr [], [])"
| "collect_tools sink ((n, c) # rest) =
     (case tag_client n c of
        (Inr ts, c') \<Rightarrow>
          (case collect_tools sink rest of
             (Inl e, rest') \<Rightarrow> (Inl e, (n, c') # rest')
           | (Inr us, rest') \<Rightarrow> (Inr (ts @ us), (n, c') # rest'))
      | (Inl e, c') \<Rightarrow>
          if sink
          then (case collect_tools sink rest of (r, rest') \<Rightarrow> (r, (n, c') # rest'))
          else (Inl AttributeError, (n, c') # rest))"

definition get_all_tools :: "manager \<Rightarrow> (exn + json list) \<times> manager" where
  "get_all_tools m =
     (case collect_tools (m_io m) (mcp_clients m) of
        (r, cs) \<Rightarrow> (r, m\<lparr>mcp_clients := cs\<rparr>))"

text \<open>\<^verbatim>\<open>McpServerManager.call_tool\<close>. \<^verbatim>\<open>if server_name:\<close> takes the first branch
  for a non-empty string only. The search evaluates
  \<^verbatim>\<open>any(tool["name"] == tool_name for tool in tools)\<close> client by client, in the
  order of the dict; a descriptor without a name raises out of the search.\<close>

fun any_named :: "string \<Rightarrow> json list \<Rightarrow> exn + bool" where
  "any_named t [] = Inr False"
| "any_named t (x # xs) =
     (case py_getitem x ''name'' of
        Inl e \<Rightarrow> Inl e
      | Inr v \<Rightarrow> if v = JStr t then Inr True else any_named t xs)"

definition has_tool :: "client \<Rightarrow> string \<Rightarrow> exn + bool" where
  "has_tool c t =
     (case get_tools c of
        Inl e \<Rightarrow> Inl e
      | Inr (JList xs) \<Rightarrow> any_named t xs
      | Inr (JObj kvs) \<Rightarrow> any_named t (map (\<lambda>(k, v). JStr k) kvs)
      | Inr v \<Rightarrow> Inl AttributeError)"

fun find_server :: "string \<Rightarrow> (string \<times> client) list \<Rightarrow> exn + (string \<times> client) option" where
  "find_server t [] = Inr None"
| "find_server t ((n, c) # rest) =
     (case has_tool c t of
        Inl e \<Rightarrow> Inl e
      | Inr True \<Rightarrow> Inr (Some (n, c))
      | Inr False \<Rightarrow> find_server t rest)"

definition quoted :: "string \<Rightarrow> string" where
  "quoted s = CHR 0x27 # s @ [CHR 0x27]"

text \<open>The call on the client that was chosen; the client object and its process are
  updated in place.\<close>

definition route :: "manager \<Rightarrow> world \<Rightarrow> string \<Rightarrow> client \<Rightarrow> string \<Rightarrow> json \<Rightarrow> line list \<Rightarrow> (exn + json) \<times> manager \<times> world" where
  "route m w n c tool_name arguments incoming =
     (case call_tool c (ptable w (process c)) tool_name arguments incoming of
        (r, c', p') \<Rightarrow>
          (r, m\<lparr>mcp_clients := AList.update n c' (mcp_clients m)\<rparr>, set_process w (process c) p'))"

definition search_call :: "manager \<Rightarrow> world \<Rightarrow> string \<Rightarrow> json \<Rightarrow> line list \<Rightarrow> (exn + json) \<times> manager \<times> world" where
  "search_call m w tool_name arguments incoming =
     (case find_server tool_name (mcp_clients m) of
        Inl e \<Rightarrow> (Inl e, m, w)
      | Inr None \<Rightarrow>
          (Inl (Exception (''Tool '' @ quoted tool_name @ '' not found on any MCP server'')), m, w)
      | Inr (Some (n, c)) \<Rightarrow> route m w n c tool_name arguments incoming)"

definition mgr_call_tool :: "manager \<Rightarrow> world \<Rightarrow> string \<Rightarrow> json \<Rightarrow> string option \<Rightarrow> line list \<Rightarrow> (exn + json) \<times> manager \<times> world" where
  "mgr_call_tool m w tool_name arguments server_name incoming =
     (case server_name of
        None \<Rightarrow> search_call m w tool_name arguments incoming
      | Some s \<Rightarrow>
          if s \<noteq> []
          then (case map_of (mcp_clients m) s of
                  None \<Rightarrow> (Inl (Exception (''MCP server '' @ quoted s @ '' not found'')), m, w)
                | Some c \<Rightarrow> route m w s c tool_name arguments incoming)
          else search_call m w tool_name arguments incoming)"

section \<open>Predicates and runs used in the statements\<close>

text \<open>The ids of the slots inserted, in order, and the property that every request
  line written follows the insertion of its slot.\<close>

fun inserted_ids :: "event list \<Rightarrow> int list" where
  "inserted_ids [] = []"
| "inserted_ids (SlotInserted r # es) = r # inserted_ids es"
| "inserted_ids (RequestWritten r # es) = inserted_ids es"

fun written_after_insert :: "int list \<Rightarrow> event list \<Rightarrow> bool" where
  "written_after_insert seen [] = True"
| "written_after_insert seen (SlotInserted r # es) = written_after_insert (r # seen) es"
| "written_after_insert seen (RequestWritten r # es) = (r \<in> set seen \<and> written_after_insert seen es)"

definition ids_ok :: "client \<Rightarrow> bool" where
  "ids_ok c =
     (0 \<le> request_id c \<and> inserted_ids (events c) = [1 .. request_id c]
      \<and> written_after_insert [] (events c)
      \<and> (\<forall>k \<in> fst ` set (pending_requests c). k \<le> request_id c))"

text \<open>What a request leaves alone: everything but the counter, the table and the
  history (\<open>rc_frame\<close>); the same without the tool list (\<open>cfg_frame\<close>).\<close>

definition rc_frame :: "client \<Rightarrow> client \<Rightarrow> bool" where
  "rc_frame c c' =
     (tools c' = tools c \<and> initialized c' = initialized c \<and> capabilities c' = capabilities c
      \<and> server_info c' = server_info c \<and> io c' = io c \<and> process c' = process c)"

definition cfg_frame :: "client \<Rightarrow> client \<Rightarrow> bool" where
  "cfg_frame c c' =
     (initialized c' = initialized c \<and> capabilities c' = capabilities c
      \<and> server_info c' = server_info c \<and> io c' = io c \<and> process c' = process c)"

text \<open>The key of the table that a message addresses, if any.\<close>

definition msg_key :: "json \<Rightarrow> int option" where
  "msg_key m =
     (case py_getitem m ''id'' of
        Inl e \<Rightarrow> None
      | Inr v \<Rightarrow> (case py_int_key v of Inl e \<Rightarrow> None | Inr k \<Rightarrow> k))"

definition line_key :: "line \<Rightarrow> int option" where
  "line_key l = (case l of Garbage \<Rightarrow> None | Message m \<Rightarrow> msg_key m)"

definition good_handler :: "handler \<Rightarrow> bool" where
  "good_handler h =
     (\<forall>c p m c' p' d. h c p m = Inr (c', p', d) \<longrightarrow>
        rc_frame c c' \<and> request_id c \<le> request_id c'
        \<and> fst ` set (pending_requests c') \<subseteq> fst ` set (pending_requests c)
        \<and> (ids_ok c \<longrightarrow> ids_ok c')
        \<and> (\<forall>k f. d = Some (k, f) \<longrightarrow>
              fdone f \<and> k \<notin> fst ` set (pending_requests c') \<and> msg_key m = Some k
              \<and> k \<in> fst ` set (pending_requests c)))"




text \<open>A manager is used through its methods, and the reader threads of its clients
  run in between.\<close>

datatype mgr_call =
    MStart string json "exn + process" "line list" "line list"
  | MStop string
  | MStopAll
  | MGetAllTools
  | MCallTool string json "string option" "line list"
  | MRead string "line list"

definition client_reads :: "manager \<Rightarrow> world \<Rightarrow> string \<Rightarrow> line list \<Rightarrow> manager \<times> world" where
  "client_reads m w n ls =
     (case map_of (mcp_clients m) n of
        None \<Rightarrow> (m, w)
      | Some c \<Rightarrow>
          (case read_responses c (ptable w (process c)) ls of
             (c', p') \<Rightarrow>
               (m\<lparr>mcp_clients := AList.update n c' (mcp_clients m)\<rparr>,
                set_process w (process c) p')))"

fun mgr_step :: "manager \<times> world \<Rightarrow> mgr_call \<Rightarrow> manager \<times> world" where
  "mgr_step (m, w) (MStart name config spawn inc_init inc_tools) =
     snd (start_server m w name config spawn inc_init inc_tools)"
| "mgr_step (m, w) (MStop name) = snd (stop_server m w name)"
| "mgr_step (m, w) MStopAll = snd (stop_all_servers m w)"
| "mgr_step (m, w) MGetAllTools = (snd (get_all_tools m), w)"
| "mgr_step (m, w) (MCallTool tool_name arguments server_name inc) =
     snd (mgr_call_tool m w tool_name arguments server_name inc)"
| "mgr_step (m, w) (MRead n ls) = client_reads m w n ls"

definition run_manager :: "manager \<times> world \<Rightarrow> mgr_call list \<Rightarrow> manager \<times> world" where
  "run_manager = foldl mgr_step"

text \<open>Manager: every client is registered with a process; the connection of a name
  is live; a process was asked to terminate; a cache holds descriptors; a client exposes
  a tool.\<close>

definition registered_ok :: "manager \<Rightarrow> bool" where
  "registered_ok m = (fst ` set (mcp_clients m) \<subseteq> fst ` set (active_processes m))"

definition is_live :: "manager \<Rightarrow> world \<Rightarrow> string \<Rightarrow> bool" where
  "is_live m w n =
     (case map_of (mcp_clients m) n of
        None \<Rightarrow> False
      | Some c \<Rightarrow> poll (ptable w (process c)) = None)"

definition term_requested :: "process \<Rightarrow> bool" where
  "term_requested p = (returncode p \<noteq> None \<or> sigterm_sent p)"

fun is_descriptor :: "json \<Rightarrow> bool" where
  "is_descriptor (JObj kvs) = (''name'' \<in> fst ` set kvs)"
| "is_descriptor v = False"

definition wf_cache :: "client \<Rightarrow> bool" where
  "wf_cache c = (case tools c of JList xs \<Rightarrow> list_all is_descriptor xs | _ \<Rightarrow> False)"

definition exposes :: "string \<Rightarrow> client \<Rightarrow> bool" where
  "exposes t c =
     (case tools c of
        JList xs \<Rightarrow> list_ex (\<lambda>d. py_getitem d ''name'' = Inr (JStr t)) xs
      | _ \<Rightarrow> False)"

section \<open>Concrete inputs\<close>

text \<open>The replies of a server that declares tool support and exposes one tool.\<close>

definition handshake_reply :: json where
  "handshake_reply =
     JObj [(''jsonrpc'', JStr ''2.0''), (''id'', JInt 1),
           (''result'', JObj [(''protocolVersion'', JStr ''2025-03-26''),
                              (''capabilities'', JObj [(''tools'', JObj [])]),
                              (''serverInfo'', JObj [(''name'', JStr ''srv'')])])]"

text \<open>An initialized client of a server that declared tool support, with a cached
  descriptor from an earlier fetch and one request already made.\<close>

definition ready_client :: client where
  "ready_client =
     (new_client 0 False)\<lparr>request_id := 1, initialized := True,
        capabilities := JObj [(''tools'', JObj [])],
        tools := JList [JObj [(''name'', JStr ''old'')]]\<rparr>"

definition tools_reply :: json where
  "tools_reply =
     JObj [(''jsonrpc'', JStr ''2.0''), (''id'', JInt 2),
           (''result'', JObj [(''tools'', JList [JObj [(''name'', JStr ''x'')]])])]"

text \<open>A manager that holds a server whose process has exited.\<close>

definition exited_process :: process where
  "exited_process = (spawned 0 True True)\<lparr>returncode := Some 0\<rparr>"

definition stale_manager :: manager where
  "stale_manager =
     \<lparr>m_io = True, active_processes = [(''srv'', 0)],
      mcp_clients = [(''srv'', (new_client 0 True)\<lparr>initialized := True\<rparr>)]\<rparr>"

definition stale_world :: world where
  "stale_world = \<lparr>ptable = (\<lambda>pid. exited_process), next_pid = 1\<rparr>"

text \<open>A world in which no process was spawned yet.\<close>

definition empty_world :: world where
  "empty_world = \<lparr>ptable = (\<lambda>pid. exited_process), next_pid = 0\<rparr>"

text \<open>A manager with one server that ignores the end of its input and SIGTERM.\<close>

definition hung_manager :: manager where
  "hung_manager =
     \<lparr>m_io = True, active_processes = [(''srv'', 0)],
      mcp_clients = [(''srv'', (new_client 0 True)\<lparr>initialized := True\<rparr>)]\<rparr>"

definition hung_world :: world where
  "hung_world = \<lparr>ptable = (\<lambda>pid. spawned 5 False False), next_pid = 1\<rparr>"

text \<open>A manager with one server, registered as \<^verbatim>\<open>a\<close>, whose cache holds the
  descriptor of the tool \<^verbatim>\<open>x\<close>; the reply of that server to its first request; the
  descriptor of a tool as the manager tags it.\<close>

definition tool_client :: client where
  "tool_client =
     (new_client 0 True)\<lparr>initialized := True, capabilities := JObj [(''tools'', JObj [])],
        tools := JList [JObj [(''name'', JStr ''x'')]]\<rparr>"

definition tool_manager :: manager where
  "tool_manager =
     \<lparr>m_io = True, active_processes = [(''a'', 0)], mcp_clients = [(''a'', tool_client)]\<rparr>"

definition tool_world :: world where
  "tool_world = \<lparr>ptable = (\<lambda>pid. spawned 5 True True), next_pid = 1\<rparr>"

definition call_reply :: json where
  "call_reply =
     JObj [(''jsonrpc'', JStr ''2.0''), (''id'', JInt 1),
           (''result'', JObj [(''content'', JList [])])]"

fun tag :: "string \<Rightarrow> json \<Rightarrow> json" where
  "tag n (JObj kvs) = JObj (AList.update ''_mcp_server'' (JStr n) kvs)"
| "tag n v = v"

definition cached :: "client \<Rightarrow> json list" where
  "cached c = (case tools c of JList xs \<Rightarrow> xs | _ \<Rightarrow> [])"

text \<open>A manager constructed without a sink, after it has started the servers \<^verbatim>\<open>a\<close>
  and \<^verbatim>\<open>b\<close>, which both complete the handshake and exit when their input is closed.\<close>

definition launch_spec :: json where
  "launch_spec = JObj [(''command'', JStr ''srv'')]"

definition started_a :: "(exn + bool) \<times> manager \<times> world" where
  "started_a =
     start_server (new_manager False) empty_world ''a'' launch_spec
       (Inr (spawned 5 True True)) [Message handshake_reply] []"

definition started_b :: "(exn + bool) \<times> manager \<times> world" where
  "started_b =
     start_server (fst (snd started_a)) (snd (snd started_a)) ''b'' launch_spec
       (Inr (spawned 5 True True)) [Message handshake_reply] []"

text \<open>A manager with two servers: the cache of \<^verbatim>\<open>a\<close> holds an object without a name,
  the cache of \<^verbatim>\<open>b\<close> holds the descriptor of the tool \<^verbatim>\<open>x\<close>.\<close>

definition nameless_client :: client where
  "nameless_client =
     (new_client 0 True)\<lparr>initialized := True, capabilities := JObj [(''tools'', JObj [])],
        tools := JList [JObj [(''title'', JStr ''y'')]]\<rparr>"

definition mixed_manager :: manager where
  "mixed_manager =
     \<lparr>m_io = True, active_processes = [(''a'', 0), (''b'', 1)],
      mcp_clients = [(''a'', nameless_client), (''b'', tool_client\<lparr>process := 1\<rparr>)]\<rparr>"

section \<open>Requests and responses of one client\<close>

lemma inserted_ids_append: "inserted_ids (es @ fs) = inserted_ids es @ inserted_ids fs"
  by (induction es rule: inserted_ids.induct) auto

lemma written_after_insert_snoc_ins:
  "written_after_insert seen (es @ [SlotInserted r]) = written_after_insert seen es"
  by (induction seen es rule: written_after_insert.induct) auto

lemma written_after_insert_snoc_wr:
  "written_after_insert seen (es @ [RequestWritten r]) =
     (written_after_insert seen es \<and> r \<in> set seen \<union> set (inserted_ids es))"
  by (induction seen es rule: written_after_insert.induct) auto

lemma rc_frame_refl: "rc_frame c c"
  by (simp add: rc_frame_def)

lemma rc_frame_trans: "rc_frame a b \<Longrightarrow> rc_frame b c \<Longrightarrow> rc_frame a c"
  by (simp add: rc_frame_def)

lemma keys_delete: "fst ` set (AList.delete k al) = fst ` set al - {k}"
  by (induction al) auto

lemma keys_update: "fst ` set (AList.update k v al) = insert k (fst ` set al)"
  by (induction al) auto

lemma ids_ok_register: "ids_ok c \<Longrightarrow> ids_ok (register_request c)"
  by (auto simp: ids_ok_def register_request_def inserted_ids_append
        written_after_insert_snoc_ins keys_update upto_rec2)

lemma ids_ok_note_written:
  "ids_ok c \<Longrightarrow> 0 < request_id c \<Longrightarrow> ids_ok (note_written (request_id c) c)"
  by (auto simp: ids_ok_def note_written_def inserted_ids_append written_after_insert_snoc_wr)

lemma ids_ok_drop_slot: "ids_ok c \<Longrightarrow> ids_ok (drop_slot k c)"
  by (auto simp: ids_ok_def drop_slot_def keys_delete)

lemma register_request_simps:
  "request_id (register_request c) = request_id c + 1"
  "fst ` set (pending_requests (register_request c)) = insert (request_id c + 1) (fst ` set (pending_requests c))"
  "rc_frame c (register_request c)"
  by (simp_all add: register_request_def keys_update rc_frame_def)

lemma note_written_simps:
  "request_id (note_written r c) = request_id c"
  "pending_requests (note_written r c) = pending_requests c"
  "rc_frame c (note_written r c)"
  by (simp_all add: note_written_def rc_frame_def)

lemma drop_slot_simps:
  "request_id (drop_slot r c) = request_id c"
  "fst ` set (pending_requests (drop_slot r c)) = fst ` set (pending_requests c) - {r}"
  "rc_frame c (drop_slot r c)"
  "events (drop_slot r c) = events c"
  by (simp_all add: drop_slot_def keys_delete rc_frame_def)

lemma reader_step_good:
  assumes "good_handler h" and "reader_step h c p l = (c', p', d)"
  shows "rc_frame c c' \<and> request_id c \<le> request_id c'
        \<and> fst ` set (pending_requests c') \<subseteq> fst ` set (pending_requests c)
        \<and> (ids_ok c \<longrightarrow> ids_ok c')
        \<and> (\<forall>k f. d = Some (k, f) \<longrightarrow>
              fdone f \<and> k \<notin> fst ` set (pending_requests c') \<and> line_key l = Some k
              \<and> k \<in> fst ` set (pending_requests c))"
proof (cases "poll p \<noteq> None \<or> l = Garbage")
  case True
  then have "c' = c \<and> d = None"
    using assms(2) by (auto simp: reader_step_def split: line.splits)
  then show ?thesis by (simp add: rc_frame_refl)
next
  case False
  then obtain m where l: "l = Message m" and alive: "poll p = None"
    by (cases l) auto
  show ?thesis
  proof (cases "h c p m")
    case (Inl e)
    then have "c' = c \<and> d = None"
      using assms(2) l alive by (simp add: reader_step_def)
    then show ?thesis by (simp add: rc_frame_refl)
  next
    case (Inr r)
    then have "h c p m = Inr (c', p', d)"
      using assms(2) l alive by (simp add: reader_step_def)
    then show ?thesis
      using assms(1) l unfolding good_handler_def line_key_def by (simp only: line.case) blast
  qed
qed

lemma await_good:
  assumes "good_handler h"
  shows "await h rid fut c p inc = (fut', c', p') \<Longrightarrow>
         rc_frame c c' \<and> request_id c \<le> request_id c'
         \<and> fst ` set (pending_requests c') \<subseteq> fst ` set (pending_requests c)
         \<and> (ids_ok c \<longrightarrow> ids_ok c')
         \<and> ((fdone fut \<longrightarrow> rid \<notin> fst ` set (pending_requests c))
              \<longrightarrow> (fdone fut' \<longrightarrow> rid \<notin> fst ` set (pending_requests c')))"
proof (induction inc arbitrary: fut c p)
  case Nil
  then show ?case by (simp add: rc_frame_refl)
next
  case (Cons l ls)
  show ?case
  proof (cases "fdone fut")
    case True
    with Cons.prems show ?thesis by (simp add: rc_frame_refl)
  next
    case False
    obtain c1 p1 d where step: "reader_step h c p l = (c1, p1, d)"
      by (cases "reader_step h c p l") auto
    define fut1 where "fut1 = (case d of None \<Rightarrow> fut | Some (k, f) \<Rightarrow> if k = rid then f else fut)"
    have rest: "await h rid fut1 c1 p1 ls = (fut', c', p')"
      using Cons.prems False step by (simp add: fut1_def)
    from reader_step_good [OF assms step]
    have s1: "rc_frame c c1" and s2: "request_id c \<le> request_id c1"
      and s3: "fst ` set (pending_requests c1) \<subseteq> fst ` set (pending_requests c)"
      and s4: "ids_ok c \<longrightarrow> ids_ok c1"
      and s5: "\<forall>k f. d = Some (k, f) \<longrightarrow>
              fdone f \<and> k \<notin> fst ` set (pending_requests c1) \<and> line_key l = Some k
              \<and> k \<in> fst ` set (pending_requests c)"
      by simp_all
    have d1: "fdone fut1 \<longrightarrow> rid \<notin> fst ` set (pending_requests c1)"
    proof (cases d)
      case None
      then show ?thesis using False by (simp add: fut1_def)
    next
      case (Some kf)
      obtain k f where kf: "kf = (k, f)" by (cases kf) auto
      have "k \<notin> fst ` set (pending_requests c1)" using s5 Some kf by simp
      then show ?thesis using False Some kf by (auto simp: fut1_def)
    qed
    from Cons.IH [OF rest] d1
    have i1: "rc_frame c1 c'" and i2: "request_id c1 \<le> request_id c'"
      and i3: "fst ` set (pending_requests c') \<subseteq> fst ` set (pending_requests c1)"
      and i4: "ids_ok c1 \<longrightarrow> ids_ok c'"
      and i5: "fdone fut' \<longrightarrow> rid \<notin> fst ` set (pending_requests c')"
      by simp_all
    have f: "rc_frame c c'" by (rule rc_frame_trans [OF s1 i1])
    have i: "request_id c \<le> request_id c'" using s2 i2 by simp
    have k: "fst ` set (pending_requests c') \<subseteq> fst ` set (pending_requests c)"
      using s3 i3 by (rule_tac order_trans)
    have o: "ids_ok c \<longrightarrow> ids_ok c'" using s4 i4 by simp
    show ?thesis using f i k o i5 by simp
  qed
qed

lemma send_request_with_cases:
  assumes "send_request_with h c p method params inc = (r, c', p')"
  obtains (write_fails) e where
      "stdin_write p (make_request (request_id c + 1) method params) = Inl e"
      "r = Inl e" "c' = drop_slot (request_id c + 1) (register_request c)" "p' = p"
  | (waited) p1 fut' c3 where
      "stdin_write p (make_request (request_id c + 1) method params) = Inr p1"
      "await h (request_id c + 1) new_future
         (note_written (request_id c + 1) (register_request c)) p1 inc = (fut', c3, p')"
      "\<not> fdone fut' \<and> r = Inl (TimeoutError method) \<and> c' = drop_slot (request_id c + 1) c3
       \<or> fdone fut' \<and> truthy (ferror fut') \<and> r = Inl (McpError (ferror fut'))
           \<and> c' = drop_slot (request_id c + 1) c3
       \<or> fdone fut' \<and> \<not> truthy (ferror fut') \<and> r = Inr (fresult fut') \<and> c' = c3"
proof (cases "stdin_write p (make_request (request_id c + 1) method params)")
  case (Inl e)
  with assms show ?thesis
    by (intro write_fails [of e]) (simp_all add: send_request_with_def Let_def register_request_simps)
next
  case (Inr p1)
  obtain fut' c3 p3 where aw: "await h (request_id c + 1) new_future
         (note_written (request_id c + 1) (register_request c)) p1 inc = (fut', c3, p3)"
    using prod_cases3 by blast
  have res: "(r, c', p') =
      (if \<not> fdone fut' then (Inl (TimeoutError method), drop_slot (request_id c + 1) c3, p3)
       else if truthy (ferror fut') then (Inl (McpError (ferror fut')), drop_slot (request_id c + 1) c3, p3)
       else (Inr (fresult fut'), c3, p3))"
    using assms Inr aw
    by (simp add: send_request_with_def Let_def register_request_simps cong: if_cong)
  then have "p' = p3" by (simp split: if_splits)
  with res aw Inr show ?thesis
    by (intro waited [of p1 fut' c3]) (auto simp: register_request_simps split: if_splits)
qed



lemma subset_insert_absent: "r \<notin> A \<Longrightarrow> A \<subseteq> insert r B \<Longrightarrow> A \<subseteq> B - {r}"
  by auto

lemma subset_insert_remove: "A \<subseteq> insert r B \<Longrightarrow> A - {r} \<subseteq> B - {r}"
  by auto

lemma send_request_with_good:
  assumes "good_handler h" and "send_request_with h c p method params inc = (r, c', p')"
  shows "rc_frame c c' \<and> request_id c < request_id c'
         \<and> fst ` set (pending_requests c') \<subseteq> fst ` set (pending_requests c) - {request_id c + 1}
         \<and> (ids_ok c \<longrightarrow> ids_ok c')"
  using assms(2)
proof (cases rule: send_request_with_cases)
  case (write_fails e)
  have f: "rc_frame c c'"
    unfolding write_fails(3) by (rule rc_frame_trans [OF register_request_simps(3) drop_slot_simps(3)])
  have i: "request_id c < request_id c'"
    by (simp add: write_fails(3) drop_slot_simps register_request_simps)
  have k: "fst ` set (pending_requests c') \<subseteq> fst ` set (pending_requests c) - {request_id c + 1}"
    by (simp add: write_fails(3) drop_slot_simps register_request_simps)
  have o: "ids_ok c \<longrightarrow> ids_ok c'"
    by (simp add: write_fails(3) ids_ok_drop_slot ids_ok_register)
  show ?thesis using f i k o by simp
next
  case (waited p1 fut' c3)
  let ?rid = "request_id c + 1"
  let ?c2 = "note_written ?rid (register_request c)"
  have c2_frame: "rc_frame c ?c2"
    by (rule rc_frame_trans [OF register_request_simps(3) note_written_simps(3)])
  have c2_ok: "ids_ok c \<longrightarrow> ids_ok ?c2"
  proof
    assume ok: "ids_ok c"
    then have "0 < request_id (register_request c)"
      by (simp add: register_request_simps ids_ok_def)
    then show "ids_ok ?c2"
      using ids_ok_note_written [of "register_request c"] ids_ok_register [OF ok]
      by (simp add: register_request_simps)
  qed
  have c2_keys: "fst ` set (pending_requests ?c2) = insert ?rid (fst ` set (pending_requests c))"
    by (simp add: note_written_simps register_request_simps)
  have c2_id: "request_id ?c2 = ?rid"
    by (simp add: note_written_simps register_request_simps)
  from await_good [OF assms(1) waited(2)]
  have a1: "rc_frame ?c2 c3" and a2: "request_id ?c2 \<le> request_id c3"
    and a3: "fst ` set (pending_requests c3) \<subseteq> fst ` set (pending_requests ?c2)"
    and a4: "ids_ok ?c2 \<longrightarrow> ids_ok c3"
    and a5: "fdone fut' \<longrightarrow> ?rid \<notin> fst ` set (pending_requests c3)"
    by (simp_all add: new_future_def)
  have c3_frame: "rc_frame c c3" by (rule rc_frame_trans [OF c2_frame a1])
  have c3_id: "?rid \<le> request_id c3" using a2 c2_id by simp
  have c3_keys: "fst ` set (pending_requests c3) \<subseteq> insert ?rid (fst ` set (pending_requests c))"
    using a3 c2_keys by simp
  have c3_ok: "ids_ok c \<longrightarrow> ids_ok c3" using a4 c2_ok by simp
  have c': "c' = c3 \<and> fdone fut' \<or> c' = drop_slot ?rid c3"
    using waited(3) by auto
  then show ?thesis
  proof
    assume h: "c' = c3 \<and> fdone fut'"
    then have "?rid \<notin> fst ` set (pending_requests c3)" using a5 by simp
    then have "fst ` set (pending_requests c3) \<subseteq> fst ` set (pending_requests c) - {?rid}"
      using c3_keys by (rule_tac subset_insert_absent)
    then show ?thesis using h c3_frame c3_id c3_ok by simp
  next
    assume h: "c' = drop_slot ?rid c3"
    have f: "rc_frame c c'"
      unfolding h by (rule rc_frame_trans [OF c3_frame drop_slot_simps(3)])
    have k: "fst ` set (pending_requests c') \<subseteq> fst ` set (pending_requests c) - {?rid}"
      unfolding h drop_slot_simps using c3_keys by (rule subset_insert_remove)
    have o: "ids_ok c \<longrightarrow> ids_ok c'"
      unfolding h using c3_ok ids_ok_drop_slot [of c3 ?rid] by simp
    show ?thesis using f k o c3_id by (simp add: h drop_slot_simps)
  qed
qed

lemma send_request_with_silent:
  assumes "send_request_with h c p method params [] = (r, c', p')"
  shows "\<exists>e. r = Inl e"
  using assms
  by (cases rule: send_request_with_cases) (auto simp: new_future_def)

lemma good_blocked: "good_handler blocked"
  by (simp add: good_handler_def blocked_def rc_frame_refl)

lemma refresh_tools_with_cases:
  assumes "refresh_tools_with h c p inc = (c', p')"
  obtains (noop) "c' = c" "p' = p"
      "\<not> initialized c \<or> py_contains ''tools'' (capabilities c) \<noteq> Inr True"
  | (failed) r where "initialized c" "py_contains ''tools'' (capabilities c) = Inr True"
      "send_request_with h c p ''tools/list'' JNull inc = (r, c', p')"
      "(\<exists>e. r = Inl e) \<or> (\<exists>res e. r = Inr res \<and> py_get res ''tools'' (JList []) = Inl e)"
  | (replaced) res c1 ts where "initialized c" "py_contains ''tools'' (capabilities c) = Inr True"
      "send_request_with h c p ''tools/list'' JNull inc = (Inr res, c1, p')"
      "py_get res ''tools'' (JList []) = Inr ts" "c' = c1\<lparr>tools := ts\<rparr>"
proof (cases "\<not> initialized c \<or> py_contains ''tools'' (capabilities c) \<noteq> Inr True")
  case True
  then have "c' = c \<and> p' = p"
    using assms by (auto simp: refresh_tools_with_def split: sum.splits bool.splits)
  then show ?thesis using True noop by simp
next
  case False
  then have i: "initialized c" and t: "py_contains ''tools'' (capabilities c) = Inr True" by simp_all
  obtain r c1 p1 where sr: "send_request_with h c p ''tools/list'' JNull inc = (r, c1, p1)"
    using prod_cases3 by blast
  show ?thesis
  proof (cases r)
    case (Inl e)
    then have "c' = c1 \<and> p' = p1" using assms i t sr by (simp add: refresh_tools_with_def)
    then show ?thesis using failed [of r] i t sr Inl by simp
  next
    case (Inr res)
    show ?thesis
    proof (cases "py_get res ''tools'' (JList [])")
      case (Inl e)
      then have "c' = c1 \<and> p' = p1" using assms i t sr Inr by (simp add: refresh_tools_with_def)
      then show ?thesis using failed [of r] i t sr Inr Inl by simp
    next
      case ts: (Inr ts)
      then have "c' = c1\<lparr>tools := ts\<rparr> \<and> p' = p1"
        using assms i t sr Inr by (auto simp: refresh_tools_with_def)
      then show ?thesis using replaced [of res c1 ts] i t sr Inr ts by simp
    qed
  qed
qed


lemma ids_ok_tools [simp]: "ids_ok (c\<lparr>tools := ts\<rparr>) = ids_ok c"
  by (simp add: ids_ok_def)

lemma rc_frame_cfg: "rc_frame c c' = (cfg_frame c c' \<and> tools c' = tools c)"
  by (auto simp: rc_frame_def cfg_frame_def)

lemma refresh_tools_with_good:
  assumes "good_handler h" and "refresh_tools_with h c p inc = (c', p')"
  shows "cfg_frame c c' \<and> request_id c \<le> request_id c'
         \<and> fst ` set (pending_requests c') \<subseteq> fst ` set (pending_requests c)
         \<and> (ids_ok c \<longrightarrow> ids_ok c')"
  using assms(2)
proof (cases rule: refresh_tools_with_cases)
  case noop
  then show ?thesis by (simp add: cfg_frame_def)
next
  case (failed r)
  from send_request_with_good [OF assms(1) failed(3)]
  have "rc_frame c c'" and "request_id c < request_id c'"
    and "fst ` set (pending_requests c') \<subseteq> fst ` set (pending_requests c) - {request_id c + 1}"
    and "ids_ok c \<longrightarrow> ids_ok c'"
    by simp_all
  then show ?thesis by (auto simp: rc_frame_cfg)
next
  case (replaced res c1 ts)
  from send_request_with_good [OF assms(1) replaced(3)]
  have "rc_frame c c1" and "request_id c < request_id c1"
    and "fst ` set (pending_requests c1) \<subseteq> fst ` set (pending_requests c) - {request_id c + 1}"
    and "ids_ok c \<longrightarrow> ids_ok c1"
    by simp_all
  then show ?thesis by (auto simp: rc_frame_cfg cfg_frame_def replaced(5))
qed

lemma refresh_tools_with_silent:
  assumes "refresh_tools_with h c p [] = (c', p')"
  shows "tools c' = tools c"
  using assms
proof (cases rule: refresh_tools_with_cases)
  case noop
  then show ?thesis by simp
next
  case (failed r)
  show ?thesis
    using failed(3)
    by (cases rule: send_request_with_cases)
       (auto simp: drop_slot_def register_request_def note_written_def new_future_def)
next
  case (replaced res c1 ts)
  then show ?thesis using send_request_with_silent [OF replaced(3)] by simp
qed

lemma handle_message_disj:
  "handle_message c p m = Inr (c', p', d) \<Longrightarrow>
     (c' = c \<and> p' = p \<and> d = None)
     \<or> (\<exists>k fut f. msg_key m = Some k \<and> map_of (pending_requests c) k = Some fut
            \<and> c' = drop_slot k c \<and> p' = p \<and> d = Some (k, f) \<and> fdone f)
     \<or> (d = None \<and> refresh_tools_with blocked c p [] = (c', p'))"
  unfolding handle_message_def msg_key_def Let_def
  by (simp split: sum.splits bool.splits option.splits if_splits prod.splits) auto

lemma handle_message_cases:
  assumes "handle_message c p m = Inr (c', p', d)"
  obtains (ignored) "c' = c" "p' = p" "d = None"
  | (delivered) k fut f where "msg_key m = Some k" "map_of (pending_requests c) k = Some fut"
      "c' = drop_slot k c" "p' = p" "d = Some (k, f)" "fdone f"
  | (notified) "d = None" "refresh_tools_with blocked c p [] = (c', p')"
  using handle_message_disj [OF assms] by (elim disjE exE conjE) blast+

lemma handle_message_good: "good_handler handle_message"
  unfolding good_handler_def
proof (intro allI impI)
  fix c p m c' p' d
  assume "handle_message c p m = Inr (c', p', d)"
  then show "rc_frame c c' \<and> request_id c \<le> request_id c'
        \<and> fst ` set (pending_requests c') \<subseteq> fst ` set (pending_requests c)
        \<and> (ids_ok c \<longrightarrow> ids_ok c')
        \<and> (\<forall>k f. d = Some (k, f) \<longrightarrow>
              fdone f \<and> k \<notin> fst ` set (pending_requests c') \<and> msg_key m = Some k
              \<and> k \<in> fst ` set (pending_requests c))"
  proof (cases rule: handle_message_cases)
    case ignored
    then show ?thesis by (simp add: rc_frame_refl)
  next
    case (delivered k fut f)
    have "k \<in> fst ` set (pending_requests c)"
      using delivered(2) by (metis map_of_SomeD fst_conv image_eqI)
    then show ?thesis
      using delivered by (simp add: drop_slot_simps ids_ok_drop_slot)
  next
    case notified
    from refresh_tools_with_good [OF good_blocked notified(2)]
         refresh_tools_with_silent [OF notified(2)]
    show ?thesis using notified(1) by (simp add: rc_frame_cfg)
  qed
qed


lemma await_unmatched:
  assumes "good_handler h"
  shows "\<forall>l \<in> set inc. line_key l \<noteq> Some rid \<Longrightarrow>
         await h rid fut c p inc = (fut', c', p') \<Longrightarrow> fut' = fut"
proof (induction inc arbitrary: fut c p)
  case Nil
  then show ?case by simp
next
  case (Cons l ls)
  show ?case
  proof (cases "fdone fut")
    case True
    with Cons.prems show ?thesis by simp
  next
    case False
    obtain c1 p1 d where step: "reader_step h c p l = (c1, p1, d)"
      using prod_cases3 by blast
    from reader_step_good [OF assms step]
    have s5: "\<forall>k f. d = Some (k, f) \<longrightarrow> line_key l = Some k" by simp
    have "line_key l \<noteq> Some rid" using Cons.prems(1) by simp
    then have same: "(case d of None \<Rightarrow> fut | Some (k, f) \<Rightarrow> if k = rid then f else fut) = fut"
      using s5 by (cases d) auto
    have "await h rid fut c1 p1 ls = (fut', c', p')"
      using Cons.prems(2) False step same by simp
    moreover have "\<forall>l \<in> set ls. line_key l \<noteq> Some rid" using Cons.prems(1) by simp
    ultimately show ?thesis using Cons.IH by blast
  qed
qed

lemma send_request_good:
  assumes "send_request c p method params inc = (r, c', p')"
  shows "rc_frame c c'" and "request_id c < request_id c'"
    and "fst ` set (pending_requests c') \<subseteq> fst ` set (pending_requests c) - {request_id c + 1}"
    and "ids_ok c \<longrightarrow> ids_ok c'"
  using send_request_with_good [OF handle_message_good, of c p "method" "params" inc r c' p'] assms
  by (simp_all add: send_request_def)

lemma send_request_timeout:
  assumes "stdin_write p (make_request (request_id c + 1) method params) = Inr p1"
    and "\<forall>l \<in> set inc. line_key l \<noteq> Some (request_id c + 1)"
    and "send_request c p method params inc = (r, c', p')"
  shows "r = Inl (TimeoutError method)"
proof -
  have "send_request_with handle_message c p method params inc = (r, c', p')"
    using assms(3) by (simp add: send_request_def)
  then show ?thesis
  proof (cases rule: send_request_with_cases)
    case (write_fails e)
    then show ?thesis using assms(1) by simp
  next
    case (waited p1' fut' c3)
    have "fut' = new_future"
      using await_unmatched [OF handle_message_good assms(2) waited(2)] .
    then show ?thesis using waited(3) by (simp add: new_future_def)
  qed
qed

lemma reader_step_unknown_id:
  assumes "py_contains ''id'' m = Inr True"
    and "\<forall>k. msg_key m = Some k \<longrightarrow> k \<notin> fst ` set (pending_requests c)"
  shows "reader_step handle_message c p (Message m) = (c, p, None)"
proof (cases "handle_message c p m")
  case (Inl e)
  then show ?thesis by (simp add: reader_step_def)
next
  case (Inr r)
  obtain c' p' d where r: "r = (c', p', d)" using prod_cases3 by blast
  have hm: "handle_message c p m = Inr (c', p', d)" using Inr r by simp
  then have "c' = c \<and> p' = p \<and> d = None"
  proof (cases rule: handle_message_cases)
    case ignored
    then show ?thesis by simp
  next
    case (delivered k fut f)
    have "k \<in> fst ` set (pending_requests c)"
      using delivered(2) by (metis map_of_SomeD fst_conv image_eqI)
    then show ?thesis using assms(2) delivered(1) by simp
  next
    case notified
    show ?thesis
      using hm assms(1) notified(1)
      by (simp add: handle_message_def Let_def
            split: sum.splits option.splits bool.splits)
  qed
  then show ?thesis using Inr r by (simp add: reader_step_def)
qed


text \<open>
  Claim C7. On a client whose \<open>initialized\<close> flag is false, \<open>call_tool\<close> fails at
  once with the exception "MCP client not initialized" and returns the client and the
  process as they were: the counter of request ids, the table of pending requests and
  the lines written to the child are unchanged, whatever the tool name, the arguments
  and the lines waiting on the child's output.
\<close>

theorem call_tool_not_initialized:
  assumes "\<not> initialized c"
  shows "call_tool c p name arguments incoming
           = (Inl (Exception ''MCP client not initialized''), c, p)"
  using assms by (simp add: call_tool_def)

theorem call_tool_not_initialized_witness:
  "\<not> initialized (new_client 0 True)
   \<and> call_tool (new_client 0 True) (spawned 3 True True) ''echo'' (JObj []) [Garbage]
       = (Inl (Exception ''MCP client not initialized''), new_client 0 True, spawned 3 True True)"
  using call_tool_not_initialized [of "new_client 0 True" "spawned 3 True True" "''echo''" "JObj []" "[Garbage]"]
  by (simp add: new_client_def)

text \<open>
  Claim C8. \<open>refresh_tools\<close> changes nothing at all when the client is not initialized
  or when \<^verbatim>\<open>"tools" in self.capabilities\<close> is not true. Otherwise it sends the
  \<^verbatim>\<open>tools/list\<close> request and: when the request fails, the cached tool list is as
  before; when the request returns a result that has no \<^verbatim>\<open>get\<close> method, the
  cached list is as before; when it returns a result object, the cached list becomes
  exactly \<^verbatim>\<open>result.get("tools", [])\<close>, the old list playing no part, and nothing
  else is changed beyond what the request itself changed. Hence whenever the cached list
  changes, the request has returned a result and the new list is that value.
\<close>

theorem refresh_tools_cache:
  "(\<not> initialized c \<or> py_contains ''tools'' (capabilities c) \<noteq> Inr True
      \<longrightarrow> refresh_tools c p inc = (c, p))
   \<and> (initialized c \<and> py_contains ''tools'' (capabilities c) = Inr True \<longrightarrow>
        (case send_request c p ''tools/list'' JNull inc of
           (Inl e, c1, p1) \<Rightarrow> refresh_tools c p inc = (c1, p1) \<and> tools c1 = tools c
         | (Inr res, c1, p1) \<Rightarrow>
             tools c1 = tools c
             \<and> (case py_get res ''tools'' (JList []) of
                  Inl e \<Rightarrow> refresh_tools c p inc = (c1, p1)
                | Inr ts \<Rightarrow> refresh_tools c p inc = (c1\<lparr>tools := ts\<rparr>, p1))))
   \<and> (\<forall>e c1 p1. send_request c p ''tools/list'' JNull inc = (Inl e, c1, p1)
         \<longrightarrow> tools (fst (refresh_tools c p inc)) = tools c)
   \<and> (tools (fst (refresh_tools c p inc)) \<noteq> tools c \<longrightarrow>
        (\<exists>res c1 p1 ts. initialized c \<and> py_contains ''tools'' (capabilities c) = Inr True
           \<and> send_request c p ''tools/list'' JNull inc = (Inr res, c1, p1)
           \<and> py_get res ''tools'' (JList []) = Inr ts
           \<and> tools (fst (refresh_tools c p inc)) = ts))"
proof -
  obtain r c1 p1 where sr: "send_request c p ''tools/list'' JNull inc = (r, c1, p1)"
    using prod_cases3 by blast
  have frame: "tools c1 = tools c"
    using send_request_good(1) [OF sr] by (simp add: rc_frame_def)
  have srw: "send_request_with handle_message c p ''tools/list'' JNull inc = (r, c1, p1)"
    using sr by (simp add: send_request_def)
  have noop: "\<not> initialized c \<or> py_contains ''tools'' (capabilities c) \<noteq> Inr True
      \<Longrightarrow> refresh_tools c p inc = (c, p)"
    by (auto simp: refresh_tools_def refresh_tools_with_def split: sum.splits bool.splits)
  have sent: "initialized c \<and> py_contains ''tools'' (capabilities c) = Inr True
      \<Longrightarrow> refresh_tools c p inc =
           (case r of
              Inl e \<Rightarrow> (c1, p1)
            | Inr res \<Rightarrow>
                (case py_get res ''tools'' (JList []) of
                   Inl e \<Rightarrow> (c1, p1)
                 | Inr ts \<Rightarrow> (c1\<lparr>tools := ts\<rparr>, p1)))"
    using srw by (cases r) (simp_all add: refresh_tools_def refresh_tools_with_def)
  show ?thesis
  proof (cases "initialized c \<and> py_contains ''tools'' (capabilities c) = Inr True")
    case False
    then have "\<not> initialized c \<or> py_contains ''tools'' (capabilities c) \<noteq> Inr True" by simp
    from noop [OF this] have rt: "refresh_tools c p inc = (c, p)" .
    have c2: "initialized c \<and> py_contains ''tools'' (capabilities c) = Inr True \<longrightarrow>
        (case send_request c p ''tools/list'' JNull inc of
           (Inl e, c1, p1) \<Rightarrow> refresh_tools c p inc = (c1, p1) \<and> tools c1 = tools c
         | (Inr res, c1, p1) \<Rightarrow>
             tools c1 = tools c
             \<and> (case py_get res ''tools'' (JList []) of
                  Inl e \<Rightarrow> refresh_tools c p inc = (c1, p1)
                | Inr ts \<Rightarrow> refresh_tools c p inc = (c1\<lparr>tools := ts\<rparr>, p1)))"
      using False by blast
    show ?thesis using rt c2 by simp
  next
    case True
    note eq = sent [OF True]
    show ?thesis
    proof (cases r)
      case (Inl e)
      then show ?thesis using True eq sr frame by simp
    next
      case (Inr res)
      show ?thesis
      proof (cases "py_get res ''tools'' (JList [])")
        case (Inl e)
        then show ?thesis using True eq sr frame Inr by simp
      next
        case ts: (Inr ts)
        then show ?thesis using True eq sr frame Inr by simp
      qed
    qed
  qed
qed

theorem refresh_tools_cache_witness:
  "initialized ready_client
   \<and> py_contains ''tools'' (capabilities ready_client) = Inr True
   \<and> tools ready_client = JList [JObj [(''name'', JStr ''old'')]]
   \<and> refresh_tools ready_client (spawned 5 True True) [Message tools_reply]
       = (ready_client\<lparr>request_id := 2, events := [SlotInserted 2, RequestWritten 2],
             tools := JList [JObj [(''name'', JStr ''x'')]]\<rparr>,
          (spawned 5 True True)\<lparr>stdin_lines := [make_request 2 ''tools/list'' JNull],
             accepts := 4\<rparr>)
   \<and> refresh_tools (new_client 0 False) (spawned 3 True True) [Garbage]
       = (new_client 0 False, spawned 3 True True)"
proof -
  have sr: "send_request ready_client (spawned 5 True True) ''tools/list'' JNull [Message tools_reply]
      = (Inr (JObj [(''tools'', JList [JObj [(''name'', JStr ''x'')]])]),
         ready_client\<lparr>request_id := 2, events := [SlotInserted 2, RequestWritten 2]\<rparr>,
         (spawned 5 True True)\<lparr>stdin_lines := [make_request 2 ''tools/list'' JNull],
             accepts := 4\<rparr>)"
    by code_simp
  have i: "initialized ready_client" by (simp add: ready_client_def new_client_def)
  have t: "py_contains ''tools'' (capabilities ready_client) = Inr True"
    by (simp add: ready_client_def new_client_def)
  have o: "tools ready_client = JList [JObj [(''name'', JStr ''old'')]]"
    by (simp add: ready_client_def new_client_def)
  have a: "refresh_tools ready_client (spawned 5 True True) [Message tools_reply]
       = (ready_client\<lparr>request_id := 2, events := [SlotInserted 2, RequestWritten 2],
             tools := JList [JObj [(''name'', JStr ''x'')]]\<rparr>,
          (spawned 5 True True)\<lparr>stdin_lines := [make_request 2 ''tools/list'' JNull],
             accepts := 4\<rparr>)"
    using refresh_tools_cache [of ready_client "spawned 5 True True" "[Message tools_reply]"] sr i t
    by simp
  have b: "refresh_tools (new_client 0 False) (spawned 3 True True) [Garbage]
       = (new_client 0 False, spawned 3 True True)"
    using refresh_tools_cache [of "new_client 0 False" "spawned 3 True True" "[Garbage]"]
    by (simp add: new_client_def)
  show ?thesis using i t o a b by simp
qed

text \<open>
  Claim C3. (1) A request that is written and to which no line handled during the wait
  answers fails with TimeoutError. (2) After \<open>send_request\<close> has returned, with a
  timeout, an error or a result, the table has no entry under the id of that request.
  (3) A message that carries an id under which no slot is pending leaves the client and
  the process unchanged, and the reader loop goes on with the next line. (4) When the
  handler completes a future, it has removed its entry from the table.
\<close>

theorem pending_table_discipline:
  "(\<forall>p1. stdin_write p (make_request (request_id c + 1) method params) = Inr p1
        \<longrightarrow> (\<forall>l \<in> set inc. line_key l \<noteq> Some (request_id c + 1))
        \<longrightarrow> fst (send_request c p method params inc) = Inl (TimeoutError method))
   \<and> request_id c + 1
        \<notin> fst ` set (pending_requests (fst (snd (send_request c p method params inc))))
   \<and> (py_contains ''id'' m = Inr True
        \<longrightarrow> (\<forall>k. msg_key m = Some k \<longrightarrow> k \<notin> fst ` set (pending_requests c))
        \<longrightarrow> reader_step handle_message c p (Message m) = (c, p, None)
            \<and> read_responses c p (Message m # ls) = read_responses c p ls)
   \<and> (\<forall>c' p' k f. handle_message c p m = Inr (c', p', Some (k, f))
        \<longrightarrow> fdone f \<and> k \<notin> fst ` set (pending_requests c'))"
proof (intro conjI allI impI)
  fix p1
  assume "stdin_write p (make_request (request_id c + 1) method params) = Inr p1"
    and "\<forall>l \<in> set inc. line_key l \<noteq> Some (request_id c + 1)"
  then show "fst (send_request c p method params inc) = Inl (TimeoutError method)"
    using send_request_timeout [of p c "method" "params" p1 inc]
    by (cases "send_request c p method params inc") simp
next
  obtain r c' p' where sr: "send_request c p method params inc = (r, c', p')"
    using prod_cases3 by blast
  from send_request_good(3) [OF sr]
  show "request_id c + 1
        \<notin> fst ` set (pending_requests (fst (snd (send_request c p method params inc))))"
    unfolding sr by auto
next
  assume a: "py_contains ''id'' m = Inr True"
    "\<forall>k. msg_key m = Some k \<longrightarrow> k \<notin> fst ` set (pending_requests c)"
  show "reader_step handle_message c p (Message m) = (c, p, None)"
    by (rule reader_step_unknown_id [OF a])
  then show "read_responses c p (Message m # ls) = read_responses c p ls"
    by simp
next
  fix c' p' k f
  assume hm: "handle_message c p m = Inr (c', p', Some (k, f))"
  then show "fdone f" by (cases rule: handle_message_cases) simp_all
  from hm show "k \<notin> fst ` set (pending_requests c')"
    by (cases rule: handle_message_cases) (simp_all add: drop_slot_simps)
qed

theorem pending_table_discipline_witness:
  "fst (send_request (new_client 0 False) (spawned 3 True True) ''ping'' JNull [Garbage])
     = Inl (TimeoutError ''ping'')
   \<and> reader_step handle_message (new_client 0 False) (spawned 3 True True)
        (Message (JObj [(''id'', JInt 7), (''result'', JNull)]))
       = (new_client 0 False, spawned 3 True True, None)"
  using pending_table_discipline [of "spawned 3 True True" "new_client 0 False" "''ping''" JNull
          "[Garbage]" "JObj [(''id'', JInt 7), (''result'', JNull)]" "[]"]
  by (simp add: new_client_def spawned_def stdin_write_def line_key_def msg_key_def)


section \<open>Request ids\<close>

lemma ids_ok_fields [simp]:
  "ids_ok (c\<lparr>capabilities := x\<rparr>) = ids_ok c"
  "ids_ok (c\<lparr>server_info := y\<rparr>) = ids_ok c"
  "ids_ok (c\<lparr>initialized := z\<rparr>) = ids_ok c"
  by (simp_all add: ids_ok_def)




lemma initialize_cases:
  assumes "initialize c p inc_init inc_tools = (b, c', p')"
  obtains (request_failed) e where "send_request c p ''initialize'' init_params inc_init = (Inl e, c', p')" "\<not> b"
  | (bad_result) res c1 where "send_request c p ''initialize'' init_params inc_init = (Inr res, c1, p')"
      "\<not> b" "c' = c1 \<or> (\<exists>caps. c' = c1\<lparr>capabilities := caps\<rparr>)"
  | (notify_failed) res c1 caps info e where
      "send_request c p ''initialize'' init_params inc_init = (Inr res, c1, p')"
      "\<not> b" "c' = c1\<lparr>capabilities := caps, server_info := info\<rparr>"
      "send_notification p' ''notifications/initialized'' JNull = Inl e"
  | (completed) res c1 p1 caps info p2 c3 where
      "send_request c p ''initialize'' init_params inc_init = (Inr res, c1, p1)"
      "py_get res ''capabilities'' (JObj []) = Inr caps"
      "py_get res ''serverInfo'' (JObj []) = Inr info"
      "send_notification p1 ''notifications/initialized'' JNull = Inr p2"
      "refresh_tools (c1\<lparr>capabilities := caps, server_info := info\<rparr>) p2 inc_tools = (c3, p')"
      "c' = c3\<lparr>initialized := True\<rparr>"
      "b = (io c3 \<longrightarrow> (\<exists>n. py_get (server_info c3) ''name'' (JStr ''Unknown'') = Inr n))"
proof -
  obtain r c1 p1 where sr: "send_request c p ''initialize'' init_params inc_init = (r, c1, p1)"
    using prod_cases3 by blast
  show ?thesis
  proof (cases r)
    case (Inl e)
    then have "c' = c1 \<and> p' = p1 \<and> \<not> b" using assms sr by (simp add: initialize_def)
    then show ?thesis using sr Inl by (intro request_failed [of e]) simp_all
  next
    case (Inr res)
    note res = Inr
    show ?thesis
    proof (cases "py_get res ''capabilities'' (JObj [])")
      case (Inl e)
      then have "c' = c1 \<and> p' = p1 \<and> \<not> b" using assms sr res by (simp add: initialize_def)
      then show ?thesis using sr res by (intro bad_result [of res c1]) simp_all
    next
      case (Inr caps)
      note caps = Inr
      show ?thesis
      proof (cases "py_get res ''serverInfo'' (JObj [])")
        case (Inl e)
        then have "c' = c1\<lparr>capabilities := caps\<rparr> \<and> p' = p1 \<and> \<not> b"
          using assms sr res caps by (simp add: initialize_def)
        then show ?thesis using sr res by (intro bad_result [of res c1]) auto
      next
        case (Inr info)
        note info = Inr
        show ?thesis
        proof (cases "send_notification p1 ''notifications/initialized'' JNull")
          case (Inl e)
          then have "c' = c1\<lparr>capabilities := caps, server_info := info\<rparr> \<and> p' = p1 \<and> \<not> b"
            using assms sr res caps info by (simp add: initialize_def Let_def)
          then show ?thesis using sr res Inl
            by (intro notify_failed [where caps = caps and info = info and e = e]) simp_all
        next
          case (Inr p2)
          obtain k3 p3 where rf: "refresh_tools (c1\<lparr>capabilities := caps, server_info := info\<rparr>) p2 inc_tools = (k3, p3)"
            by (cases "refresh_tools (c1\<lparr>capabilities := caps, server_info := info\<rparr>) p2 inc_tools") auto
          have "c' = k3\<lparr>initialized := True\<rparr> \<and> p' = p3
                \<and> b = (io k3 \<longrightarrow> (\<exists>n. py_get (server_info k3) ''name'' (JStr ''Unknown'') = Inr n))"
            using assms sr res caps info Inr rf
            by (auto simp: initialize_def Let_def split: sum.splits if_splits)
          then show ?thesis
            using sr res caps info Inr rf
            by (intro completed [where caps = caps and info = info and ?c3.0 = k3 and ?p2.0 = p2]) simp_all
        qed
      qed
    qed
  qed
qed










section \<open>The handshake\<close>

lemma refresh_tools_uninitialized: "\<not> initialized c \<Longrightarrow> refresh_tools c p inc = (c, p)"
  by (simp add: refresh_tools_def refresh_tools_with_def)

text \<open>When \<open>initialize\<close> starts on a client that is not initialized, the refresh it calls
  finds the flag still false and returns at once: the cached tool list is never fetched
  by the handshake.\<close>

lemma initialize_never_fetches:
  assumes "initialize c p inc_init inc_tools = (b, c', p')" and "\<not> initialized c"
  shows "tools c' = tools c"
  using assms(1)
proof (cases rule: initialize_cases)
  case (request_failed e)
  then show ?thesis using send_request_good(1) by (simp add: rc_frame_def)
next
  case (bad_result res c1)
  have "rc_frame c c1" using send_request_good(1) [OF bad_result(1)] .
  then show ?thesis using bad_result(3) by (auto simp: rc_frame_def)
next
  case (notify_failed res c1 caps info e)
  have "rc_frame c c1" using send_request_good(1) [OF notify_failed(1)] .
  then show ?thesis using notify_failed(3) by (simp add: rc_frame_def)
next
  case (completed res c1 p1 caps info p2 c3)
  have f: "rc_frame c c1" using send_request_good(1) [OF completed(1)] .
  then have "\<not> initialized (c1\<lparr>capabilities := caps, server_info := info\<rparr>)"
    using assms(2) by (simp add: rc_frame_def)
  then have "c3 = c1\<lparr>capabilities := caps, server_info := info\<rparr>"
    using completed(5) refresh_tools_uninitialized by simp
  then show ?thesis using completed(6) f by (simp add: rc_frame_def)
qed

text \<open>Without a sink, a failed handshake leaves the flag false, and the handshake never
  raises: its result is a boolean.\<close>

lemma initialize_failure_keeps_flag:
  assumes "initialize c p inc_init inc_tools = (False, c', p')"
    and "\<not> initialized c" and "\<not> io c"
  shows "\<not> initialized c'"
  using assms(1)
proof (cases rule: initialize_cases)
  case (request_failed e)
  then show ?thesis using send_request_good(1) assms(2) by (simp add: rc_frame_def)
next
  case (bad_result res c1)
  have "rc_frame c c1" using send_request_good(1) [OF bad_result(1)] .
  then show ?thesis using bad_result(3) assms(2) by (auto simp: rc_frame_def)
next
  case (notify_failed res c1 caps info e)
  have "rc_frame c c1" using send_request_good(1) [OF notify_failed(1)] .
  then show ?thesis using notify_failed(3) assms(2) by (simp add: rc_frame_def)
next
  case (completed res c1 p1 caps info p2 c3)
  have f: "rc_frame c c1" using send_request_good(1) [OF completed(1)] .
  have "cfg_frame (c1\<lparr>capabilities := caps, server_info := info\<rparr>) c3"
    using refresh_tools_with_good [OF handle_message_good] completed(5)
    by (simp add: refresh_tools_def)
  then have "io c3 = io c" using f by (simp add: cfg_frame_def rc_frame_def)
  then show ?thesis using completed(7) assms(3) by simp
qed

text \<open>
  Claim C1, at a server that declares tool support and answers every request: the
  handshake succeeds and sets \<open>initialized\<close>, but it has written only the
  \<^verbatim>\<open>initialize\<close> request and the \<^verbatim>\<open>notifications/initialized\<close> notification:
  no \<^verbatim>\<open>tools/list\<close> request was issued and the cached tool list is still empty,
  because \<^verbatim>\<open>_refresh_tools\<close> is called before the flag is set and returns at once.
\<close>

theorem initialize_skips_tool_fetch:
  "initialize (new_client 0 False) (spawned 5 True True) [Message handshake_reply] [Message tools_reply]
     = (True,
        (new_client 0 False)\<lparr>request_id := 1, capabilities := JObj [(''tools'', JObj [])],
           server_info := JObj [(''name'', JStr ''srv'')], initialized := True,
           events := [SlotInserted 1, RequestWritten 1]\<rparr>,
        (spawned 5 True True)\<lparr>stdin_lines :=
           [make_request 1 ''initialize'' init_params,
            JObj [(''jsonrpc'', JStr ''2.0''), (''method'', JStr ''notifications/initialized'')]],
           accepts := 3\<rparr>)
   \<and> tools (new_client 0 False) = JList []"
  by code_simp

text \<open>With a sink, a server whose \<^verbatim>\<open>serverInfo\<close> is not an object makes the success
  report raise after the flag was set: the handshake reports failure with
  \<open>initialized\<close> true.\<close>

lemma initialize_fails_with_flag_set:
  "(case initialize (new_client 0 True) (spawned 5 True True)
      [Message (JObj [(''id'', JInt 1),
         (''result'', JObj [(''capabilities'', JObj []), (''serverInfo'', JStr ''srv'')])])] []
    of (b, c', p') \<Rightarrow> \<not> b \<and> initialized c')"
  by code_simp


section \<open>Starting and stopping servers\<close>

lemma delete_update_absent:
  "k \<notin> fst ` set al \<Longrightarrow> AList.delete k (AList.update k v al) = al"
  by (simp add: AList.delete_update_same)

lemma py_get_total: "py_get v k d = Inr x \<Longrightarrow> \<exists>y. py_get v k' d' = Inr y"
  by (cases v) (simp_all split: option.splits)

lemma start_server_cases:
  assumes "start_server m w name config spawn inc_init inc_tools = (r, m', w')"
  obtains (already) "name \<in> fst ` set (active_processes m)"
      "r = (if m_io m then Inr True else Inl AttributeError)" "m' = m" "w' = w"
  | (raised) e where "name \<notin> fst ` set (active_processes m)" "r = Inl e" "m' = m" "w' = w"
      "\<forall>command. py_get config ''command'' JNull = Inr command \<longrightarrow> truthy command"
  | (no_command) command where "name \<notin> fst ` set (active_processes m)"
      "py_get config ''command'' JNull = Inr command" "\<not> truthy command"
      "r = (if m_io m then Inr False else Inl AttributeError)" "m' = m" "w' = w"
  | (spawn_failed) command where "name \<notin> fst ` set (active_processes m)"
      "py_get config ''command'' JNull = Inr command" "truthy command"
      "r = (if m_io m then Inr False else Inl AttributeError)" "m' = m" "w' = w"
  | (init_failed) command c p0 p1 where "name \<notin> fst ` set (active_processes m)"
      "py_get config ''command'' JNull = Inr command" "truthy command"
      "initialize (new_client (next_pid w) (m_io m)) p0 inc_init inc_tools = (False, c, p1)"
      "r = Inr False" "m' = m"
      "w' = set_process ((set_process w (next_pid w) p0)\<lparr>next_pid := Suc (next_pid w)\<rparr>)
              (next_pid w) (terminate p1)"
  | (started) command c p0 p1 where "name \<notin> fst ` set (active_processes m)"
      "py_get config ''command'' JNull = Inr command" "truthy command"
      "initialize (new_client (next_pid w) (m_io m)) p0 inc_init inc_tools = (True, c, p1)"
      "r = (if m_io m then Inr True else Inl AttributeError)"
      "m' = m\<lparr>active_processes := AList.update name (next_pid w) (active_processes m),
              mcp_clients := AList.update name c (mcp_clients m)\<rparr>"
      "w' = set_process ((set_process w (next_pid w) p0)\<lparr>next_pid := Suc (next_pid w)\<rparr>)
              (next_pid w) p1"
proof (cases "name \<in> fst ` set (active_processes m)")
  case True
  have "r = (if m_io m then Inr True else Inl AttributeError) \<and> m' = m \<and> w' = w"
    using assms True by (cases "m_io m") (simp_all add: start_server_def tool_output_def)
  then show ?thesis using True by (intro already) simp_all
next
  case absent: False
  show ?thesis
  proof (cases "py_get config ''command'' JNull")
    case (Inl e)
    have "r = Inl e \<and> m' = m \<and> w' = w"
      using assms absent Inl by (simp add: start_server_def)
    then show ?thesis using absent Inl by (intro raised [of e]) simp_all
  next
    case (Inr command)
    note command = Inr
    obtain args where args: "py_get config ''args'' (JList []) = Inr args"
      using py_get_total [OF command] by blast
    obtain env_vars where env_vars: "py_get config ''env'' (JObj []) = Inr env_vars"
      using py_get_total [OF command] by blast
    note ctx = assms absent command args env_vars
    note defs = start_server_def tool_output_def tool_error_def Let_def delete_update_absent
    show ?thesis
    proof (cases "truthy command")
      case False
      then have "r = (if m_io m then Inr False else Inl AttributeError) \<and> m' = m \<and> w' = w"
        using ctx by (cases "m_io m") (simp_all add: defs)
      then show ?thesis using absent command False by (intro no_command [of command]) simp_all
    next
      case True
      show ?thesis
      proof (cases "env_update env_vars")
        case (Inl e)
        then have "r = Inl e \<and> m' = m \<and> w' = w" using ctx True by (cases "m_io m") (simp_all add: defs)
        then show ?thesis using absent command True by (intro raised [of e]) simp_all
      next
        case (Inr env)
        note env = Inr
        show ?thesis
        proof (cases "popen command args env spawn")
          case (Inl e)
          then have "r = (if m_io m then Inr False else Inl AttributeError) \<and> m' = m \<and> w' = w"
            using ctx True env by (cases "m_io m") (simp_all add: defs)
          then show ?thesis using absent command True by (intro spawn_failed [of command]) simp_all
        next
          case (Inr p0)
          obtain b c p1 where ini: "initialize (new_client (next_pid w) (m_io m)) p0 inc_init inc_tools = (b, c, p1)"
            using prod_cases3 by blast
          show ?thesis
          proof (cases b)
            case True
            have "r = (if m_io m then Inr True else Inl AttributeError)
               \<and> m' = m\<lparr>active_processes := AList.update name (next_pid w) (active_processes m),
                               mcp_clients := AList.update name c (mcp_clients m)\<rparr>
               \<and> w' = set_process ((set_process w (next_pid w) p0)\<lparr>next_pid := Suc (next_pid w)\<rparr>)
                               (next_pid w) p1"
              using ctx \<open>truthy command\<close> env Inr ini True by (cases "m_io m") (simp_all add: defs)
            then show ?thesis
              using absent command \<open>truthy command\<close> ini True
              by (intro started [of command p0 c p1]) simp_all
          next
            case False
            have "r = Inr False \<and> m' = m
               \<and> w' = set_process ((set_process w (next_pid w) p0)\<lparr>next_pid := Suc (next_pid w)\<rparr>)
                               (next_pid w) (terminate p1)"
              using ctx \<open>truthy command\<close> env Inr ini False by (cases "m_io m") (simp_all add: defs)
            then show ?thesis
              using absent command \<open>truthy command\<close> ini False
              by (intro init_failed [of command p0 c p1]) simp_all
          qed
        qed
      qed
    qed
  qed
qed


lemma term_requested_terminate: "term_requested (terminate p)"
  by (simp add: term_requested_def terminate_def)

text \<open>
  Claim C2, at a manager constructed without a sink (\<^verbatim>\<open>io\<close> defaults to
  \<^verbatim>\<open>None\<close>) and a server that completes the handshake: \<open>start_server\<close> registers
  the process and the client, then \<^verbatim>\<open>self.io.tool_output\<close> raises AttributeError
  inside the \<^verbatim>\<open>try\<close> block and \<^verbatim>\<open>self.io.tool_error\<close> raises it again inside
  the handler. The call fails with that exception, and afterwards both mappings, empty
  before the call, hold the name, and the process was not asked to terminate.
\<close>

theorem start_server_raises_after_registering:
  "fst started_a = Inl AttributeError
   \<and> active_processes (new_manager False) = [] \<and> mcp_clients (new_manager False) = []
   \<and> map fst (active_processes (fst (snd started_a))) = [''a'']
   \<and> map fst (mcp_clients (fst (snd started_a))) = [''a'']
   \<and> returncode (ptable (snd (snd started_a)) 0) = None
   \<and> sigterm_sent (ptable (snd (snd started_a)) 0) = False"
  by code_simp

text \<open>
  Claim C10, as the code has it. For a manager that has a sink, \<open>start_server\<close> returns
  True and leaves the manager and the world exactly as they were (no process spawned, no
  registration changed) if and only if the name has an entry in \<open>active_processes\<close>. The
  test is membership in that mapping; the process is not polled and the client mapping
  is not consulted.
\<close>

theorem start_server_noop_iff:
  assumes "m_io m"
  shows "(start_server m w name config spawn inc_init inc_tools = (Inr True, m, w))
           = (name \<in> fst ` set (active_processes m))"
proof
  assume eq: "start_server m w name config spawn inc_init inc_tools = (Inr True, m, w)"
  from eq show "name \<in> fst ` set (active_processes m)"
  proof (cases rule: start_server_cases)
    case (started command c p0 p1)
    have "active_processes m = AList.update name (next_pid w) (active_processes m)"
      using arg_cong [OF started(6), of active_processes] by simp
    then have "fst ` set (active_processes m) = insert name (fst ` set (active_processes m))"
      using keys_update [of name "next_pid w" "active_processes m"] by simp
    then show ?thesis by blast
  qed (simp_all add: assms)
next
  assume "name \<in> fst ` set (active_processes m)"
  then show "start_server m w name config spawn inc_init inc_tools = (Inr True, m, w)"
    using assms by (simp add: start_server_def tool_output_def)
qed

theorem start_server_noop_iff_witness:
  "m_io stale_manager
   \<and> start_server stale_manager stale_world ''srv'' (JObj []) (Inl OSError) [] []
       = (Inr True, stale_manager, stale_world)"
proof -
  have io: "m_io stale_manager" by (simp add: stale_manager_def)
  have "''srv'' \<in> fst ` set (active_processes stale_manager)" by (simp add: stale_manager_def)
  then show ?thesis
    using start_server_noop_iff [OF io, of stale_world "''srv''" "JObj []" "Inl OSError" "[]" "[]"] io
    by simp
qed

text \<open>
  Claim C10 as stated fails: on a manager that holds a server whose process has exited,
  \<open>start_server\<close> is a no-op that returns True although the connection is not live.
\<close>

theorem start_server_noop_on_exited_process:
  "start_server stale_manager stale_world ''srv'' (JObj [(''command'', JStr ''srv'')])
      (Inr (spawned 5 True True)) [] []
     = (Inr True, stale_manager, stale_world)
   \<and> \<not> is_live stale_manager stale_world ''srv''"
  by (simp add: start_server_def tool_output_def stale_manager_def stale_world_def
        is_live_def poll_def exited_process_def new_client_def)


lemma returncode_kill: "returncode (kill p) \<noteq> None"
  by (simp add: kill_def)

lemma wait_timeout_Inr: "wait_timeout p = Inr rc \<Longrightarrow> returncode p \<noteq> None"
  by (simp add: wait_timeout_def split: option.splits)

lemma stop_server_cases:
  assumes "stop_server m w name = (r, m', w')"
  obtains (absent) "name \<notin> fst ` set (active_processes m)" "r = Inr False" "m' = m" "w' = w"
  | (stopped) pid b where "map_of (active_processes m) name = Some pid"
      "r = (if m_io m then Inr b else Inl AttributeError)"
      "m' = m\<lparr>mcp_clients := AList.delete name (mcp_clients m),
              active_processes := AList.delete name (active_processes m)\<rparr>"
      "returncode (ptable w' pid) \<noteq> None"
  | (aborted) pid where "map_of (active_processes m) name = Some pid" "\<not> m_io m"
      "r = Inl AttributeError"
      "m' = m\<lparr>mcp_clients := AList.delete name (mcp_clients m)\<rparr>"
proof (cases "map_of (active_processes m) name")
  case None
  then have "r = Inr False \<and> m' = m \<and> w' = w"
    using assms by (simp add: stop_server_def)
  moreover have "name \<notin> fst ` set (active_processes m)"
    using None by (simp add: map_of_eq_None_iff)
  ultimately show ?thesis by (intro absent) simp_all
next
  case (Some pid)
  define m1 where "m1 = m\<lparr>mcp_clients := AList.delete name (mcp_clients m)\<rparr>"
  define w1 where "w1 = (case map_of (mcp_clients m) name of
                           None \<Rightarrow> w
                         | Some c \<Rightarrow> set_process w (process c) (close (ptable w (process c))))"
  have first: "(case map_of (mcp_clients m) name of
                   None \<Rightarrow> (m, w)
                 | Some c \<Rightarrow>
                     (m\<lparr>mcp_clients := AList.delete name (mcp_clients m)\<rparr>,
                      set_process w (process c) (close (ptable w (process c))))) = (m1, w1)"
  proof (cases "map_of (mcp_clients m) name")
    case None
    then have "name \<notin> fst ` set (mcp_clients m)" by (simp add: map_of_eq_None_iff)
    then show ?thesis using None by (simp add: m1_def w1_def)
  next
    case (Some c)
    then show ?thesis by (simp add: m1_def w1_def)
  qed
  define p1 where "p1 = terminate (ptable w1 pid)"
  have io1: "m_io m1 = m_io m" by (simp add: m1_def)
  show ?thesis
  proof (cases "wait_timeout p1")
    case (Inr rc)
    have "r = (if m_io m then Inr True else Inl AttributeError)
        \<and> m' = m1\<lparr>active_processes := AList.delete name (active_processes m1)\<rparr>
        \<and> w' = set_process w1 pid p1"
      using assms(1) Some first Inr io1
      by (cases "m_io m") (simp_all add: stop_server_def Let_def p1_def tool_output_def tool_error_def)
    moreover have "returncode p1 \<noteq> None" using wait_timeout_Inr [OF Inr] .
    ultimately show ?thesis
      using Some by (intro stopped [of pid True]) (simp_all add: m1_def set_process_def)
  next
    case (Inl e)
    show ?thesis
    proof (cases "m_io m")
      case True
      have "r = Inr False
          \<and> m' = m1\<lparr>active_processes := AList.delete name (active_processes m1)\<rparr>
          \<and> w' = set_process (set_process w1 pid p1) pid (kill p1)"
        using assms(1) Some first Inl io1 True
        by (simp add: stop_server_def Let_def p1_def tool_error_def)
      then show ?thesis
        using Some returncode_kill [of p1] True
        by (intro stopped [of pid False]) (simp_all add: m1_def set_process_def)
    next
      case False
      have "r = Inl AttributeError \<and> m' = m1"
        using assms(1) Some first Inl io1 False
        by (simp add: stop_server_def Let_def p1_def tool_error_def)
      then show ?thesis
        using Some False by (intro aborted [of pid]) (simp_all add: m1_def)
    qed
  qed
qed

lemma stop_server_invariants:
  assumes "stop_server m w name = (r, m', w')" and "m_io m" and "registered_ok m"
  shows "m_io m' \<and> registered_ok m'
    \<and> fst ` set (active_processes m') = fst ` set (active_processes m) - {name}
    \<and> (\<exists>b. r = Inr b)"
  using assms(1)
proof (cases rule: stop_server_cases)
  case absent
  then show ?thesis using assms(2,3) by auto
next
  case (stopped pid b)
  have "registered_ok m'"
    using assms(3) unfolding registered_ok_def stopped(3) by (auto simp: keys_delete)
  then show ?thesis using stopped assms(2) by (simp add: keys_delete)
next
  case (aborted pid)
  then show ?thesis using assms(2) by simp
qed


lemma stop_each_invariants:
  "stop_each m w ns = (r, m', w') \<Longrightarrow> m_io m \<Longrightarrow> registered_ok m \<Longrightarrow>
     r = Inr () \<and> m_io m' \<and> registered_ok m'
     \<and> fst ` set (active_processes m') = fst ` set (active_processes m) - set ns"
proof (induction ns arbitrary: m w)
  case Nil
  then show ?case by simp
next
  case (Cons n ns)
  obtain r1 m1 w1 where st: "stop_server m w n = (r1, m1, w1)"
    using prod_cases3 by blast
  from stop_server_invariants [OF st Cons.prems(2,3)]
  obtain b where s: "m_io m1" "registered_ok m1"
      "fst ` set (active_processes m1) = fst ` set (active_processes m) - {n}" "r1 = Inr b"
    by blast
  have rest: "stop_each m1 w1 ns = (r, m', w')"
    using Cons.prems(1) st s(4) by simp
  from Cons.IH [OF rest s(1,2)]
  have "r = Inr ()" "m_io m'" "registered_ok m'"
    "fst ` set (active_processes m') = fst ` set (active_processes m1) - set ns"
    by simp_all
  then show ?case using s(3) by auto
qed

text \<open>
  With a sink, stopping removes the registrations. For a manager that has a sink and in
  which every client is registered with a process: \<open>stop_server\<close> on a name of the process mapping never raises and leaves the
  name in neither mapping, also when the wait after \<^verbatim>\<open>terminate\<close> times out, in
  which case the process is killed: in every case the process has exited afterwards.
  \<open>stop_all_servers\<close> never raises and leaves both mappings empty, whatever each
  single stop returned.
\<close>

lemma stop_removes_registrations:
  assumes "m_io m" and "registered_ok m"
  shows "(\<forall>pid. map_of (active_processes m) name = Some pid \<longrightarrow>
            (case stop_server m w name of
               (r, m', w') \<Rightarrow>
                 (\<exists>b. r = Inr b)
                 \<and> name \<notin> fst ` set (active_processes m')
                 \<and> name \<notin> fst ` set (mcp_clients m')
                 \<and> returncode (ptable w' pid) \<noteq> None))
         \<and> (case stop_all_servers m w of
               (r, m', w') \<Rightarrow> r = Inr () \<and> active_processes m' = [] \<and> mcp_clients m' = [])"
proof (intro conjI allI impI)
  fix pid
  assume reg: "map_of (active_processes m) name = Some pid"
  obtain r m' w' where st: "stop_server m w name = (r, m', w')"
    using prod_cases3 by blast
  from st
  have "(\<exists>b. r = Inr b)
        \<and> name \<notin> fst ` set (active_processes m')
        \<and> name \<notin> fst ` set (mcp_clients m')
        \<and> returncode (ptable w' pid) \<noteq> None"
  proof (cases rule: stop_server_cases)
    case absent
    then show ?thesis using reg by (simp add: map_of_eq_None_iff [symmetric])
  next
    case (stopped pid' b)
    then show ?thesis using reg assms(1) by (simp add: keys_delete)
  next
    case (aborted pid')
    then show ?thesis using assms(1) by simp
  qed
  then show "case stop_server m w name of
               (r, m', w') \<Rightarrow>
                 (\<exists>b. r = Inr b)
                 \<and> name \<notin> fst ` set (active_processes m')
                 \<and> name \<notin> fst ` set (mcp_clients m')
                 \<and> returncode (ptable w' pid) \<noteq> None"
    using st by simp
next
  obtain r m' w' where st: "stop_each m w (map fst (active_processes m)) = (r, m', w')"
    using prod_cases3 by blast
  from stop_each_invariants [OF st assms]
  have r: "r = Inr ()" and reg: "registered_ok m'"
    and keys: "fst ` set (active_processes m') = fst ` set (active_processes m) - set (map fst (active_processes m))"
    by simp_all
  have "fst ` set (active_processes m') = {}" using keys by simp
  then have a: "active_processes m' = []" by simp
  then have "fst ` set (mcp_clients m') = {}" using reg by (simp add: registered_ok_def)
  then have "mcp_clients m' = []" by simp
  then show "case stop_all_servers m w of
               (r, m', w') \<Rightarrow> r = Inr () \<and> active_processes m' = [] \<and> mcp_clients m' = []"
    using st r a by (simp add: stop_all_servers_def)
qed


lemma stop_removes_registrations_example:
  "m_io hung_manager \<and> registered_ok hung_manager
   \<and> (case stop_all_servers hung_manager hung_world of
         (r, m', w') \<Rightarrow> r = Inr () \<and> active_processes m' = [] \<and> mcp_clients m' = [])"
proof -
  have io: "m_io hung_manager" by (simp add: hung_manager_def)
  have reg: "registered_ok hung_manager" by (simp add: hung_manager_def registered_ok_def)
  show ?thesis
    using stop_removes_registrations [OF io reg, of "''srv''" hung_world] io reg by simp
qed

text \<open>
  Claim C6, at a manager constructed without a sink that holds the servers \<^verbatim>\<open>a\<close> and
  \<^verbatim>\<open>b\<close>: \<open>stop_all_servers\<close> stops \<^verbatim>\<open>a\<close> and removes it from both mappings, then
  \<^verbatim>\<open>self.io.tool_output\<close> raises AttributeError, the handler's
  \<^verbatim>\<open>self.io.tool_error\<close> raises it again, and the exception leaves the loop: the
  server \<^verbatim>\<open>b\<close> is not stopped and stays in both mappings.
\<close>

theorem stop_all_servers_aborts_without_sink:
  "map fst (active_processes (fst (snd started_b))) = [''a'', ''b'']
   \<and> map fst (mcp_clients (fst (snd started_b))) = [''a'', ''b'']
   \<and> fst (stop_all_servers (fst (snd started_b)) (snd (snd started_b))) = Inl AttributeError
   \<and> map fst (active_processes (fst (snd (stop_all_servers (fst (snd started_b)) (snd (snd started_b))))))
       = [''b'']
   \<and> map fst (mcp_clients (fst (snd (stop_all_servers (fst (snd started_b)) (snd (snd started_b))))))
       = [''b'']
   \<and> returncode (ptable (snd (snd (stop_all_servers (fst (snd started_b)) (snd (snd started_b))))) 1)
       = None"
  by code_simp

section \<open>Routing and aggregation\<close>

lemma any_named_descriptors:
  "list_all is_descriptor xs \<Longrightarrow>
     any_named t xs = Inr (list_ex (\<lambda>d. py_getitem d ''name'' = Inr (JStr t)) xs)"
proof (induction xs)
  case Nil
  then show ?case by simp
next
  case (Cons x xs)
  then obtain kvs where x: "x = JObj kvs" and n: "''name'' \<in> fst ` set kvs"
    by (cases x) auto
  then obtain v where v: "map_of kvs ''name'' = Some v"
    by (metis map_of_eq_None_iff not_Some_eq)
  show ?case using Cons x v by simp
qed

lemma has_tool_exposes: "wf_cache c \<Longrightarrow> has_tool c t = Inr (exposes t c)"
  by (cases "tools c") (simp_all add: wf_cache_def has_tool_def exposes_def any_named_descriptors)

lemma find_server_find:
  "\<forall>(n, c) \<in> set cs. wf_cache c \<Longrightarrow>
     find_server t cs = Inr (List.find (\<lambda>(n, c). exposes t c) cs)"
proof (induction cs)
  case Nil
  then show ?case by simp
next
  case (Cons nc cs)
  obtain n c where nc: "nc = (n, c)" by (cases nc) auto
  have "wf_cache c" using Cons.prems nc by simp
  then have "has_tool c t = Inr (exposes t c)" by (rule has_tool_exposes)
  moreover have "find_server t cs = Inr (List.find (\<lambda>(n, c). exposes t c) cs)"
    using Cons by simp
  ultimately show ?case using nc by simp
qed

text \<open>
  Claim C5, as the code has it. With a non-empty server name, \<open>mgr_call_tool\<close> fails
  with "MCP server ... not found" when no client is registered under that name, the
  manager and the world unchanged, and otherwise is the call of \<open>call_tool\<close> on the client
  registered under that name (\<open>route\<close>). With no server name, and when every cache is
  a list of objects that have a name, it is the call on the first client, in the order of
  the mapping, whose cache has a descriptor of that name, and it fails with "Tool ... not
  found on any MCP server" when there is none. The empty string as server name is
  treated as no server name.
\<close>

theorem call_tool_routing:
  "(s \<noteq> [] \<longrightarrow>
      mgr_call_tool m w t a (Some s) inc =
        (case map_of (mcp_clients m) s of
           None \<Rightarrow> (Inl (Exception (''MCP server '' @ quoted s @ '' not found'')), m, w)
         | Some c \<Rightarrow> route m w s c t a inc))
   \<and> ((\<forall>(n, c) \<in> set (mcp_clients m). wf_cache c) \<longrightarrow>
      mgr_call_tool m w t a None inc =
        (case List.find (\<lambda>(n, c). exposes t c) (mcp_clients m) of
           None \<Rightarrow> (Inl (Exception (''Tool '' @ quoted t @ '' not found on any MCP server'')), m, w)
         | Some (n, c) \<Rightarrow> route m w n c t a inc))
   \<and> mgr_call_tool m w t a (Some []) inc = mgr_call_tool m w t a None inc"
proof (intro conjI impI)
  assume "s \<noteq> []"
  then show "mgr_call_tool m w t a (Some s) inc =
        (case map_of (mcp_clients m) s of
           None \<Rightarrow> (Inl (Exception (''MCP server '' @ quoted s @ '' not found'')), m, w)
         | Some c \<Rightarrow> route m w s c t a inc)"
    by (simp add: mgr_call_tool_def)
next
  assume wf: "\<forall>(n, c) \<in> set (mcp_clients m). wf_cache c"
  show "mgr_call_tool m w t a None inc =
        (case List.find (\<lambda>(n, c). exposes t c) (mcp_clients m) of
           None \<Rightarrow> (Inl (Exception (''Tool '' @ quoted t @ '' not found on any MCP server'')), m, w)
         | Some (n, c) \<Rightarrow> route m w n c t a inc)"
    using find_server_find [OF wf, of t]
    by (simp add: mgr_call_tool_def search_call_def split: option.splits)
next
  show "mgr_call_tool m w t a (Some []) inc = mgr_call_tool m w t a None inc"
    by (simp add: mgr_call_tool_def)
qed

theorem call_tool_routing_witness:
  "fst (mgr_call_tool tool_manager tool_world ''x'' (JObj []) None [Message call_reply])
     = fst (route tool_manager tool_world ''a'' tool_client ''x'' (JObj []) [Message call_reply])
   \<and> fst (mgr_call_tool tool_manager tool_world ''x'' (JObj []) (Some ''b'') [Message call_reply])
     = Inl (Exception (''MCP server '' @ quoted ''b'' @ '' not found''))"
proof -
  have wf: "\<forall>(n, c) \<in> set (mcp_clients tool_manager). wf_cache c"
    by (simp add: tool_manager_def tool_client_def wf_cache_def)
  have f: "List.find (\<lambda>(n, c). exposes ''x'' c) (mcp_clients tool_manager) = Some (''a'', tool_client)"
    by (simp add: tool_manager_def tool_client_def exposes_def)
  have g: "map_of (mcp_clients tool_manager) ''b'' = None"
    by (simp add: tool_manager_def)
  show ?thesis
    using call_tool_routing [of "''b''" tool_manager tool_world "''x''" "JObj []" "[Message call_reply]"] wf f g
    by simp
qed

text \<open>
  Claim C5 as stated fails in two places. For the server name \<^verbatim>\<open>""\<close>: no client is
  registered under it, yet the call does not fail; it is routed by tool name to the
  server \<^verbatim>\<open>a\<close> and returns that server's result. And without a server name, when an
  earlier cache holds an object that has no name: the server \<^verbatim>\<open>b\<close> exposes the tool
  \<^verbatim>\<open>x\<close>, yet the search raises KeyError on the cache of \<^verbatim>\<open>a\<close> and nothing is
  called.
\<close>

theorem empty_server_name_is_searched:
  "map_of (mcp_clients tool_manager) [] = None
   \<and> fst (mgr_call_tool tool_manager tool_world ''x'' (JObj []) (Some []) [Message call_reply])
       = Inr (JObj [(''content'', JList [])])
   \<and> exposes ''x'' (tool_client\<lparr>process := 1\<rparr>)
   \<and> fst (mgr_call_tool mixed_manager tool_world ''x'' (JObj []) None [Message call_reply])
       = Inl KeyError"
  by code_simp


lemma tag_tools_descriptors:
  "list_all is_descriptor xs \<Longrightarrow> tag_tools n xs = (map (tag n) xs, True)"
proof (induction xs)
  case Nil
  then show ?case by simp
next
  case (Cons x xs)
  then obtain kvs where "x = JObj kvs" by (cases x) auto
  then show ?case using Cons by simp
qed

lemma tag_client_descriptors:
  "wf_cache c \<Longrightarrow>
     tag_client n c = (Inr (map (tag n) (cached c)), c\<lparr>tools := JList (map (tag n) (cached c))\<rparr>)"
  by (cases "tools c")
     (simp_all add: wf_cache_def tag_client_def cached_def tag_tools_descriptors)

text \<open>On caches that hold descriptors, the aggregation returns every cached descriptor
  tagged with the name its client is registered under, client by client, and it leaves
  the tagged descriptors in the caches.\<close>

lemma collect_tools_descriptors:
  "\<forall>(n, c) \<in> set cs. wf_cache c \<Longrightarrow>
     collect_tools sink cs
       = (Inr (concat (map (\<lambda>(n, c). map (tag n) (cached c)) cs)),
          map (\<lambda>(n, c). (n, c\<lparr>tools := JList (map (tag n) (cached c))\<rparr>)) cs)"
proof (induction cs)
  case Nil
  then show ?case by simp
next
  case (Cons nc cs)
  obtain n c where nc: "nc = (n, c)" by (cases nc) auto
  have "wf_cache c" using Cons.prems nc by simp
  then have "tag_client n c
      = (Inr (map (tag n) (cached c)), c\<lparr>tools := JList (map (tag n) (cached c))\<rparr>)"
    by (rule tag_client_descriptors)
  moreover have "collect_tools sink cs
       = (Inr (concat (map (\<lambda>(n, c). map (tag n) (cached c)) cs)),
          map (\<lambda>(n, c). (n, c\<lparr>tools := JList (map (tag n) (cached c))\<rparr>)) cs)"
    using Cons by simp
  ultimately show ?case using nc by simp
qed

text \<open>
  Claim C9, at a manager with one server \<^verbatim>\<open>a\<close> whose cache holds the descriptor
  \<^verbatim>\<open>{"name": "x"}\<close>: \<open>get_all_tools\<close> returns the descriptor tagged with
  \<^verbatim>\<open>"_mcp_server": "a"\<close>, and afterwards the descriptor in the client's cache carries
  the tag too. \<^verbatim>\<open>get_tools\<close> copies the list, not the dicts in it, so the manager
  writes the tag into the cached descriptor.
\<close>

theorem get_all_tools_writes_into_cache:
  "get_all_tools tool_manager
     = (Inr [JObj [(''name'', JStr ''x''), (''_mcp_server'', JStr ''a'')]],
        tool_manager\<lparr>mcp_clients :=
          [(''a'', tool_client\<lparr>tools := JList [JObj [(''name'', JStr ''x''), (''_mcp_server'', JStr ''a'')]]\<rparr>)]\<rparr>)
   \<and> tools tool_client = JList [JObj [(''name'', JStr ''x'')]]
   \<and> get_tools tool_client = Inr (JList [JObj [(''name'', JStr ''x'')]])"
  by code_simp

section \<open>The states a manager reaches\<close>

lemma registered_ok_new_manager: "registered_ok (new_manager sink)"
  by (simp add: new_manager_def registered_ok_def)

lemma registered_ok_clients_update:
  "registered_ok m \<Longrightarrow> n \<in> fst ` set (mcp_clients m) \<Longrightarrow>
     registered_ok (m\<lparr>mcp_clients := AList.update n c (mcp_clients m)\<rparr>)"
  by (auto simp: registered_ok_def keys_update)

lemma start_server_registered_ok:
  assumes "start_server m w name config spawn inc_init inc_tools = (r, m', w')"
    and "registered_ok m"
  shows "registered_ok m'"
  using assms(1)
proof (cases rule: start_server_cases)
  case (started command c p0 p1)
  then show ?thesis using assms(2) by (auto simp: registered_ok_def keys_update)
qed (simp_all add: assms(2))

lemma stop_server_registered_ok:
  assumes "stop_server m w name = (r, m', w')" and "registered_ok m"
  shows "registered_ok m'"
  using assms(1)
proof (cases rule: stop_server_cases)
  case absent
  then show ?thesis using assms(2) by simp
next
  case (stopped pid b)
  show ?thesis
    using assms(2) unfolding registered_ok_def stopped(3) by (auto simp: keys_delete)
next
  case (aborted pid)
  show ?thesis
    using assms(2) unfolding registered_ok_def aborted(4) by (auto simp: keys_delete)
qed

lemma stop_each_registered_ok:
  "stop_each m w ns = (r, m', w') \<Longrightarrow> registered_ok m \<Longrightarrow> registered_ok m'"
proof (induction ns arbitrary: m w)
  case Nil
  then show ?case by simp
next
  case (Cons n ns)
  obtain r1 m1 w1 where st: "stop_server m w n = (r1, m1, w1)"
    using prod_cases3 by blast
  have ok1: "registered_ok m1" using stop_server_registered_ok [OF st Cons.prems(2)] .
  show ?case
  proof (cases r1)
    case (Inl e)
    then have "m' = m1" using Cons.prems(1) st by simp
    then show ?thesis using ok1 by simp
  next
    case (Inr b)
    then have "stop_each m1 w1 ns = (r, m', w')" using Cons.prems(1) st by simp
    then show ?thesis using Cons.IH ok1 by blast
  qed
qed

lemma collect_tools_keys: "map fst (snd (collect_tools sink cs)) = map fst cs"
proof (induction cs)
  case Nil
  then show ?case by simp
next
  case (Cons nc cs)
  obtain n c where nc: "nc = (n, c)" by (cases nc) auto
  obtain r c' where tc: "tag_client n c = (r, c')" by (cases "tag_client n c") auto
  obtain r2 cs' where ct: "collect_tools sink cs = (r2, cs')" by (cases "collect_tools sink cs") auto
  have "map fst cs' = map fst cs" using Cons.IH ct by simp
  then show ?case using nc tc ct by (cases r; cases r2; cases sink) simp_all
qed

lemma get_all_tools_registered_ok:
  "registered_ok m \<Longrightarrow> registered_ok (snd (get_all_tools m))"
proof -
  assume ok: "registered_ok m"
  obtain r cs where ct: "collect_tools (m_io m) (mcp_clients m) = (r, cs)"
    by (cases "collect_tools (m_io m) (mcp_clients m)") auto
  have "map fst cs = map fst (mcp_clients m)"
    using collect_tools_keys [of "m_io m" "mcp_clients m"] ct by simp
  then have "fst ` set cs = fst ` set (mcp_clients m)" by (metis set_map)
  then show ?thesis using ok ct by (simp add: get_all_tools_def registered_ok_def)
qed

lemma find_server_mem: "find_server t cs = Inr (Some (n, c)) \<Longrightarrow> (n, c) \<in> set cs"
proof (induction cs)
  case Nil
  then show ?case by simp
next
  case (Cons x cs)
  obtain n' c' where x: "x = (n', c')" by (cases x) auto
  show ?case
    using Cons x by (auto split: sum.splits bool.splits)
qed

lemma route_registered_ok:
  assumes "registered_ok m" and "n \<in> fst ` set (mcp_clients m)"
  shows "registered_ok (fst (snd (route m w n c t a inc)))"
proof -
  obtain r c' p' where ct: "call_tool c (ptable w (process c)) t a inc = (r, c', p')"
    using prod_cases3 by blast
  show ?thesis
    using registered_ok_clients_update [OF assms] ct by (simp add: route_def)
qed

lemma search_call_registered_ok:
  assumes "registered_ok m"
  shows "registered_ok (fst (snd (search_call m w t a inc)))"
proof (cases "find_server t (mcp_clients m)")
  case (Inl e)
  then show ?thesis using assms by (simp add: search_call_def)
next
  case (Inr found)
  show ?thesis
  proof (cases found)
    case None
    then show ?thesis using assms Inr by (simp add: search_call_def)
  next
    case (Some nc)
    obtain n c where nc: "nc = (n, c)" by (cases nc) auto
    have "(n, c) \<in> set (mcp_clients m)" using find_server_mem Inr Some nc by simp
    then have "n \<in> fst ` set (mcp_clients m)" by force
    then show ?thesis
      using route_registered_ok [OF assms] Inr Some nc by (simp add: search_call_def)
  qed
qed

lemma mgr_call_tool_registered_ok:
  assumes "registered_ok m"
  shows "registered_ok (fst (snd (mgr_call_tool m w t a sn inc)))"
proof (cases sn)
  case None
  then show ?thesis using search_call_registered_ok [OF assms] by (simp add: mgr_call_tool_def)
next
  case (Some s)
  show ?thesis
  proof (cases "s = []")
    case True
    then show ?thesis
      using Some search_call_registered_ok [OF assms] by (simp add: mgr_call_tool_def)
  next
    case False
    show ?thesis
    proof (cases "map_of (mcp_clients m) s")
      case None
      then show ?thesis using Some False assms by (simp add: mgr_call_tool_def)
    next
      case found: (Some c)
      then have "s \<in> fst ` set (mcp_clients m)"
        by (metis map_of_SomeD fst_conv image_eqI)
      then show ?thesis
        using route_registered_ok [OF assms] Some False found by (simp add: mgr_call_tool_def)
    qed
  qed
qed

lemma client_reads_registered_ok:
  assumes "registered_ok m"
  shows "registered_ok (fst (client_reads m w n ls))"
proof (cases "map_of (mcp_clients m) n")
  case None
  then show ?thesis using assms by (simp add: client_reads_def)
next
  case (Some c)
  then have "n \<in> fst ` set (mcp_clients m)"
    by (metis map_of_SomeD fst_conv image_eqI)
  then show ?thesis
    using registered_ok_clients_update [OF assms] Some
    by (simp add: client_reads_def split: prod.splits)
qed

lemma mgr_step_registered_ok:
  assumes "registered_ok (fst s)"
  shows "registered_ok (fst (mgr_step s a))"
proof -
  obtain m w where s: "s = (m, w)" by (cases s) auto
  have ok: "registered_ok m" using assms s by simp
  show ?thesis
  proof (cases a)
    case (MStart name config spawn inc_init inc_tools)
    obtain r m' w' where "start_server m w name config spawn inc_init inc_tools = (r, m', w')"
      using prod_cases3 by blast
    then show ?thesis using start_server_registered_ok ok s MStart by fastforce
  next
    case (MStop name)
    obtain r m' w' where "stop_server m w name = (r, m', w')"
      using prod_cases3 by blast
    then show ?thesis using stop_server_registered_ok ok s MStop by fastforce
  next
    case MStopAll
    obtain r m' w' where "stop_each m w (map fst (active_processes m)) = (r, m', w')"
      using prod_cases3 by blast
    then show ?thesis
      using stop_each_registered_ok ok s MStopAll by (fastforce simp: stop_all_servers_def)
  next
    case MGetAllTools
    then show ?thesis using get_all_tools_registered_ok ok s by simp
  next
    case (MCallTool t a' sn inc)
    then show ?thesis using mgr_call_tool_registered_ok [OF ok] s by simp
  next
    case (MRead n ls)
    then show ?thesis using client_reads_registered_ok [OF ok] s by simp
  qed
qed

lemma run_manager_registered_ok:
  "registered_ok (fst s) \<Longrightarrow> registered_ok (fst (run_manager s calls))"
proof (induction calls arbitrary: s)
  case Nil
  then show ?case by (simp add: run_manager_def)
next
  case (Cons a calls)
  have "registered_ok (fst (mgr_step s a))" using mgr_step_registered_ok Cons.prems .
  then have "registered_ok (fst (run_manager (mgr_step s a) calls))" using Cons.IH by blast
  then show ?case by (simp add: run_manager_def)
qed

text \<open>
  Failed starts are unwound. In every state that a manager reaches from its construction,
  by any sequence of calls of its methods and of lines handled by the reader threads: when
  \<open>start_server\<close> returns False, and also, for a manager that has a sink, when it
  raises, the manager is as before the call, so both mappings are unchanged, and neither
  has an entry for the name; either no process was spawned and the world is unchanged,
  or exactly one process was created and \<^verbatim>\<open>terminate\<close> was called on it (it has
  exited or SIGTERM was sent to it), the other processes being untouched. With a missing
  or empty command the call does not succeed, spawns nothing and changes no
  registration, with or without a sink.
\<close>

lemma start_server_failure_unwinds:
  assumes "(m, w) = run_manager (new_manager sink, w0) calls"
    and "start_server m w name config spawn inc_init inc_tools = (r, m', w')"
  shows "(r = Inr False \<or> (m_io m \<and> r \<noteq> Inr True) \<longrightarrow>
            m' = m
            \<and> active_processes m' = active_processes m \<and> mcp_clients m' = mcp_clients m
            \<and> name \<notin> fst ` set (active_processes m') \<and> name \<notin> fst ` set (mcp_clients m')
            \<and> (w' = w
                \<or> (next_pid w' = Suc (next_pid w) \<and> term_requested (ptable w' (next_pid w))
                    \<and> (\<forall>q. q \<noteq> next_pid w \<longrightarrow> ptable w' q = ptable w q))))
         \<and> (\<forall>command. name \<notin> fst ` set (active_processes m)
               \<longrightarrow> py_get config ''command'' JNull = Inr command \<longrightarrow> \<not> truthy command
               \<longrightarrow> r \<noteq> Inr True \<and> m' = m \<and> w' = w)"
proof -
  have reg: "registered_ok m"
    using run_manager_registered_ok [of "(new_manager sink, w0)" calls]
      registered_ok_new_manager [of sink] assms(1) [symmetric]
    by simp
  from assms(2) show ?thesis
  proof (cases rule: start_server_cases)
  case already
  then show ?thesis by (simp split: if_splits)
next
  case (raised e)
  have "name \<notin> fst ` set (mcp_clients m)"
    using raised(1) reg unfolding registered_ok_def by blast
  then show ?thesis using raised by simp
next
  case (no_command command)
  have "name \<notin> fst ` set (mcp_clients m)"
    using no_command(1) reg unfolding registered_ok_def by blast
  then show ?thesis using no_command by simp
next
  case (spawn_failed command)
  have "name \<notin> fst ` set (mcp_clients m)"
    using spawn_failed(1) reg unfolding registered_ok_def by blast
  then show ?thesis using spawn_failed by simp
next
  case (init_failed command c p0 p1)
  have "name \<notin> fst ` set (mcp_clients m)"
    using init_failed(1) reg unfolding registered_ok_def by blast
  then show ?thesis
    using init_failed by (simp add: set_process_def term_requested_terminate)
next
  case (started command c p0 p1)
  then show ?thesis by (simp split: if_splits)
  qed
qed

lemma start_server_failure_unwinds_example:
  "fst (start_server (new_manager False) empty_world ''srv'' launch_spec
            (Inr (spawned 5 True False)) [Garbage] []) = Inr False
   \<and> fst (snd (start_server (new_manager False) empty_world ''srv'' launch_spec
            (Inr (spawned 5 True False)) [Garbage] [])) = new_manager False
   \<and> term_requested (ptable (snd (snd (start_server (new_manager False) empty_world ''srv''
            launch_spec (Inr (spawned 5 True False)) [Garbage] []))) 0)"
proof -
  let ?R = "start_server (new_manager False) empty_world ''srv'' launch_spec
            (Inr (spawned 5 True False)) [Garbage] []"
  have run: "(new_manager False, empty_world) = run_manager (new_manager False, empty_world) []"
    by (simp add: run_manager_def)
  have r: "fst ?R = Inr False" by code_simp
  have np: "next_pid (snd (snd ?R)) = 1" by code_simp
  have "snd (snd ?R) \<noteq> empty_world"
  proof
    assume "snd (snd ?R) = empty_world"
    then have "next_pid (snd (snd ?R)) = 0" by (simp add: empty_world_def)
    then show False using np by simp
  qed
  then show ?thesis
    using start_server_failure_unwinds [OF run, of "''srv''" launch_spec
            "Inr (spawned 5 True False)" "[Garbage]" "[]"
            "fst ?R" "fst (snd ?R)" "snd (snd ?R)"] r
    by (simp add: empty_world_def)
qed



text \<open>An environment given as pairs that repeat a key reaches \<^verbatim>\<open>Popen\<close> with the
  last value of that key only: a non-string value that a later pair replaces by a string
  does not stop the launch, one that comes last does.\<close>

lemma popen_repeated_key:
  "popen (JStr ''srv'') (JList []) [(JStr ''A'', JInt 1), (JStr ''A'', JStr ''x'')] spawn = spawn
   \<and> popen (JStr ''srv'') (JList []) [(JStr ''A'', JStr ''x''), (JStr ''A'', JInt 1)] spawn
       = Inl TypeError"
  by (simp add: popen_def updated_env_def)

end
